theory Spec2Isabelle
  imports Main "HOL-Library.Word"
begin

section \<open>A shallow embedding of the JWKS server (app.py)\<close>

text \<open>
  The server keeps RSA key pairs in a module-level dictionary \<^verbatim>\<open>keys\<close>, publishes the
  unexpired public keys at \<^verbatim>\<open>/.well-known/jwks.json\<close> and signs tokens at \<^verbatim>\<open>/auth\<close>.
  Everything the handlers read from outside (the wall clock, the UUID generator, the RSA
  key generator, the signing primitive) is a field of the environment record; everything
  they mutate is a field of the server state, passed in and returned.
\<close>

subsection \<open>Python values\<close>

type_synonym byte = "8 word"

text \<open>A \<^verbatim>\<open>datetime\<close> in UTC, as microseconds since the epoch (its resolution).\<close>

type_synonym datetime = int

datatype py_error = OverflowError | KeyError | InternalError

definition timedelta_hours :: "int \<Rightarrow> int" where
  "timedelta_hours h = h * 3600000000"

definition timedelta_minutes :: "int \<Rightarrow> int" where
  "timedelta_minutes m = m * 60000000"

text \<open>
  A \<^verbatim>\<open>datetime\<close> lies between \<^verbatim>\<open>datetime.min\<close> (the start of year 1) and
  \<^verbatim>\<open>datetime.max\<close> (the last microsecond of year 9999); adding a \<^verbatim>\<open>timedelta\<close>
  raises \<^verbatim>\<open>OverflowError\<close> when the result leaves that range. Subtracting is adding
  the negated \<^verbatim>\<open>timedelta\<close>.
\<close>

definition datetime_min :: datetime where
  "datetime_min = - 62135596800000000"

definition datetime_max :: datetime where
  "datetime_max = 253402300799999999"

definition in_datetime_range :: "int \<Rightarrow> bool" where
  "in_datetime_range t = (datetime_min \<le> t \<and> t \<le> datetime_max)"

definition datetime_add :: "datetime \<Rightarrow> int \<Rightarrow> py_error + datetime" where
  "datetime_add t delta = (if in_datetime_range (t + delta) then Inr (t + delta) else Inl OverflowError)"

subsection \<open>Dictionaries in insertion order\<close>

text \<open>
  A Python \<^verbatim>\<open>dict\<close> iterates in insertion order, and both handlers iterate over
  \<^verbatim>\<open>keys.items()\<close>, so the dictionary is an association list. Assigning to a key that
  is present replaces the value in place; assigning to a new key appends; \<^verbatim>\<open>del\<close> and
  subscripting raise \<^verbatim>\<open>KeyError\<close> on a missing key.
\<close>

fun dict_set :: "('k \<times> 'v) list \<Rightarrow> 'k \<Rightarrow> 'v \<Rightarrow> ('k \<times> 'v) list" where
  "dict_set [] k v = [(k, v)]"
| "dict_set ((k', v') # d) k v = (if k' = k then (k, v) # d else (k', v') # dict_set d k v)"

definition dict_del :: "('k \<times> 'v) list \<Rightarrow> 'k \<Rightarrow> py_error + ('k \<times> 'v) list" where
  "dict_del d k =
     (if k \<in> set (map fst d) then Inr (filter (\<lambda>kv. fst kv \<noteq> k) d) else Inl KeyError)"

definition dict_get :: "('k \<times> 'v) list \<Rightarrow> 'k \<Rightarrow> py_error + 'v" where
  "dict_get d k = (case map_of d k of None \<Rightarrow> Inl KeyError | Some v \<Rightarrow> Inr v)"

subsection \<open>base64url\_encode\<close>

text \<open>
  \<^verbatim>\<open>
  def base64url_encode(value: int) -> str:
      bytes_value = value.to_bytes((value.bit_length() + 7) // 8, 'big')
      return base64.urlsafe_b64encode(bytes_value).rstrip(b'=').decode('utf-8')
  \<close>
  \<^verbatim>\<open>int.bit_length\<close> is the number of binary digits of the absolute value;
  \<^verbatim>\<open>int.to_bytes\<close> raises \<^verbatim>\<open>OverflowError\<close> for a negative integer and for one that
  does not fit the length; \<^verbatim>\<open>base64.urlsafe_b64encode\<close> is the standard encoding of
  RFC 4648 with \<^verbatim>\<open>+\<close> and \<^verbatim>\<open>/\<close> translated to \<^verbatim>\<open>-\<close> and \<^verbatim>\<open>_\<close>. The output is ASCII,
  so decoding it as UTF-8 changes nothing.
\<close>

fun bit_length_nat :: "nat \<Rightarrow> nat" where
  "bit_length_nat m = (if m = 0 then 0 else Suc (bit_length_nat (m div 2)))"

declare bit_length_nat.simps [simp del]

definition bit_length :: "int \<Rightarrow> nat" where
  "bit_length v = bit_length_nat (nat \<bar>v\<bar>)"

fun be_bytes :: "nat \<Rightarrow> nat \<Rightarrow> byte list" where
  "be_bytes 0 v = []"
| "be_bytes (Suc k) v = be_bytes k (v div 256) @ [of_nat (v mod 256)]"

definition to_bytes_big :: "int \<Rightarrow> nat \<Rightarrow> py_error + byte list" where
  "to_bytes_big v len =
     (if v < 0 then Inl OverflowError
      else if 256 ^ len \<le> v then Inl OverflowError
      else Inr (be_bytes len (nat v)))"

definition b64_std_alphabet :: string where
  "b64_std_alphabet = ''ABCDEFGHIJKLMNOPQRSTUVWXYZabcdefghijklmnopqrstuvwxyz0123456789+/''"

definition b64_digit :: "nat \<Rightarrow> char" where
  "b64_digit i = b64_std_alphabet ! i"

fun b64encode :: "byte list \<Rightarrow> string" where
  "b64encode (a # b # c # rest) =
     [b64_digit (unat a div 4),
      b64_digit (unat a mod 4 * 16 + unat b div 16),
      b64_digit (unat b mod 16 * 4 + unat c div 64),
      b64_digit (unat c mod 64)] @ b64encode rest"
| "b64encode [a, b] =
     [b64_digit (unat a div 4),
      b64_digit (unat a mod 4 * 16 + unat b div 16),
      b64_digit (unat b mod 16 * 4),
      CHR ''='']"
| "b64encode [a] =
     [b64_digit (unat a div 4),
      b64_digit (unat a mod 4 * 16),
      CHR ''='', CHR ''='']"
| "b64encode [] = []"

definition urlsafe_encode_translation :: "char \<Rightarrow> char" where
  "urlsafe_encode_translation c =
     (if c = CHR ''+'' then CHR ''-'' else if c = CHR ''/'' then CHR ''_'' else c)"

definition urlsafe_b64encode :: "byte list \<Rightarrow> string" where
  "urlsafe_b64encode s = map urlsafe_encode_translation (b64encode s)"

definition rstrip :: "char \<Rightarrow> string \<Rightarrow> string" where
  "rstrip p s = rev (dropWhile (\<lambda>c. c = p) (rev s))"

definition base64url_encode :: "int \<Rightarrow> py_error + string" where
  "base64url_encode v =
     (case to_bytes_big v ((bit_length v + 7) div 8) of
        Inl err \<Rightarrow> Inl err
      | Inr bytes_value \<Rightarrow> Inr (rstrip (CHR ''='') (urlsafe_b64encode bytes_value)))"

text \<open>The URL-safe alphabet of RFC 4648, section 5.\<close>

definition b64_url_alphabet :: string where
  "b64_url_alphabet = ''ABCDEFGHIJKLMNOPQRSTUVWXYZabcdefghijklmnopqrstuvwxyz0123456789-_''"

subsection \<open>The decoder of a relying party\<close>

text \<open>
  The repository only encodes. The decoder below is the one the round-trip property of
  the specification speaks of: a strict decoder of unpadded base64url (RFC 4648,
  section 5, with the padding left out). Every character must belong to the URL-safe
  alphabet, so \<^verbatim>\<open>+\<close>, \<^verbatim>\<open>/\<close> and \<^verbatim>\<open>=\<close> are refused; a last group of two or three
  characters must have its unused bits zero; a single left-over character is refused.
  The bytes are then read as a big-endian integer (\<^verbatim>\<open>int.from_bytes(bs, 'big')\<close>).
\<close>

fun index_of :: "'a \<Rightarrow> 'a list \<Rightarrow> nat option" where
  "index_of x [] = None"
| "index_of x (y # ys) = (if x = y then Some 0 else map_option Suc (index_of x ys))"

definition b64url_index :: "char \<Rightarrow> nat option" where
  "b64url_index c = index_of c b64_url_alphabet"

fun b64url_decode_bytes :: "string \<Rightarrow> byte list option" where
  "b64url_decode_bytes [] = Some []"
| "b64url_decode_bytes [c0] = None"
| "b64url_decode_bytes [c0, c1] =
     (case b64url_index c0 of
        None \<Rightarrow> None
      | Some i0 \<Rightarrow>
          (case b64url_index c1 of
             None \<Rightarrow> None
           | Some i1 \<Rightarrow>
               if i1 mod 16 = 0 then Some [of_nat (i0 * 4 + i1 div 16)] else None))"
| "b64url_decode_bytes [c0, c1, c2] =
     (case b64url_index c0 of
        None \<Rightarrow> None
      | Some i0 \<Rightarrow>
          (case b64url_index c1 of
             None \<Rightarrow> None
           | Some i1 \<Rightarrow>
               (case b64url_index c2 of
                  None \<Rightarrow> None
                | Some i2 \<Rightarrow>
                    if i2 mod 4 = 0
                    then Some [of_nat (i0 * 4 + i1 div 16), of_nat (i1 mod 16 * 16 + i2 div 4)]
                    else None)))"
| "b64url_decode_bytes (c0 # c1 # c2 # c3 # rest) =
     (case b64url_index c0 of
        None \<Rightarrow> None
      | Some i0 \<Rightarrow>
          (case b64url_index c1 of
             None \<Rightarrow> None
           | Some i1 \<Rightarrow>
               (case b64url_index c2 of
                  None \<Rightarrow> None
                | Some i2 \<Rightarrow>
                    (case b64url_index c3 of
                       None \<Rightarrow> None
                     | Some i3 \<Rightarrow>
                         (case b64url_decode_bytes rest of
                            None \<Rightarrow> None
                          | Some bs \<Rightarrow>
                              Some (of_nat (i0 * 4 + i1 div 16) #
                                    of_nat (i1 mod 16 * 16 + i2 div 4) #
                                    of_nat (i2 mod 4 * 64 + i3) # bs))))))"

definition from_bytes_big :: "byte list \<Rightarrow> nat" where
  "from_bytes_big bs = foldl (\<lambda>acc b. acc * 256 + unat b) 0 bs"

definition base64url_decode :: "string \<Rightarrow> int option" where
  "base64url_decode s = map_option (\<lambda>bs. int (from_bytes_big bs)) (b64url_decode_bytes s)"

subsection \<open>Keys, the environment and the server state\<close>

text \<open>
  An RSA public key is its public numbers; both are positive integers, so they are
  naturals here. A private key carries its public numbers and the private exponent.
\<close>

record rsa_public_numbers =
  rsa_n :: nat
  rsa_e :: nat

record rsa_private_key =
  public_numbers_of :: rsa_public_numbers
  private_exponent :: nat

text \<open>One value of the dictionary \<^verbatim>\<open>keys\<close>.\<close>

record key_entry =
  private_key :: rsa_private_key
  public_key :: rsa_public_numbers
  expiry :: datetime

text \<open>The PKCS8 PEM serialisation of a private key determines the key.\<close>

datatype pem = PKCS8_PEM rsa_private_key

definition private_bytes :: "rsa_private_key \<Rightarrow> pem" where
  "private_bytes k = PKCS8_PEM k"

datatype py_value = PyStr string | PyInt int | PyDatetime datetime

text \<open>
  A token as its three parts. Decoding a compact token without verifying the signature
  returns the header and the payload that were encoded, so reading the fields of this
  record stands for that decoding.
\<close>

record jwt =
  jwt_header :: "(string \<times> string) list"
  jwt_payload :: "(string \<times> py_value) list"
  jwt_signature :: string

text \<open>
  What the handlers read from outside the program: \<open>clock ev i\<close> is the value of the
  \<open>i\<close>-th call of \<^verbatim>\<open>datetime.now(UTC)\<close> since the process started,
  \<open>uuid4_str ev j\<close> and \<open>rsa_generate_private_key ev j\<close> are the outcome of
  \<^verbatim>\<open>str(uuid.uuid4())\<close> and of \<^verbatim>\<open>rsa.generate_private_key\<close> in the \<open>j\<close>-th call of
  \<^verbatim>\<open>generate_key\<close>, and \<open>jws_sign\<close> is the RS256 signature of PyJWT, which returns
  the signature or raises (\<open>Inl\<close> carries the exception's message). Key generation
  can fail too: \<open>rsa_generate_raises ev j\<close> is the exception that the \<open>j\<close>-th call of
  \<^verbatim>\<open>rsa.generate_private_key\<close> raises instead of returning, if it does.
\<close>

record env =
  clock :: "nat \<Rightarrow> datetime"
  uuid4_str :: "nat \<Rightarrow> string"
  rsa_generate_private_key :: "nat \<Rightarrow> rsa_private_key"
  rsa_generate_raises :: "nat \<Rightarrow> py_error option"
  jws_sign :: "pem \<Rightarrow> (string \<times> string) list \<Rightarrow> (string \<times> py_value) list \<Rightarrow> string + string"

record server =
  keys :: "(string \<times> key_entry) list"
  clock_reads :: nat
  keys_made :: nat

definition datetime_now :: "env \<Rightarrow> server \<Rightarrow> datetime \<times> server" where
  "datetime_now ev s = (clock ev (clock_reads s), s\<lparr>clock_reads := Suc (clock_reads s)\<rparr>)"

subsection \<open>generate\_key\<close>

text \<open>
  \<^verbatim>\<open>
  def generate_key(expired: bool = False) -> str:
      private_key = rsa.generate_private_key(...)
      kid = str(uuid.uuid4())
      expiry = datetime.now(UTC) + timedelta(hours=1)
      if expired:
          expiry = datetime.now(UTC) - timedelta(minutes=5)
      keys[kid] = {'private_key': private_key,
                   'public_key': private_key.public_key(), 'expiry': expiry}
      return kid
  \<close>
  The function has no \<^verbatim>\<open>try\<close>: an exception of the key generation or of the two
  additions leaves it before the assignment to \<^verbatim>\<open>keys\<close>.
\<close>

definition generate_key :: "env \<Rightarrow> bool \<Rightarrow> server \<Rightarrow> py_error + (string \<times> server)" where
  "generate_key ev expired s0 =
     (case rsa_generate_raises ev (keys_made s0) of
        Some err \<Rightarrow> Inl err
      | None \<Rightarrow>
          (let priv = rsa_generate_private_key ev (keys_made s0);
               kid = uuid4_str ev (keys_made s0);
               s1 = s0\<lparr>keys_made := Suc (keys_made s0)\<rparr>;
               (now1, s2) = datetime_now ev s1
           in case datetime_add now1 (timedelta_hours 1) of
                Inl err \<Rightarrow> Inl err
              | Inr expiry1 \<Rightarrow>
                  (case (if expired
                         then (let (now2, s') = datetime_now ev s2
                               in case datetime_add now2 (- timedelta_minutes 5) of
                                    Inl err \<Rightarrow> Inl err
                                  | Inr expiry2 \<Rightarrow> Inr (expiry2, s'))
                         else Inr (expiry1, s2)) of
                     Inl err \<Rightarrow> Inl err
                   | Inr (expiry_time, s3) \<Rightarrow>
                       Inr (kid,
                            s3\<lparr>keys := dict_set (keys s3) kid
                                  \<lparr>private_key = priv, public_key = public_numbers_of priv,
                                   expiry = expiry_time\<rparr>\<rparr>))))"

subsection \<open>The discovery handler\<close>

record jwk =
  jwk_kty :: string
  jwk_use :: string
  jwk_kid :: string
  jwk_n :: string
  jwk_e :: string
  jwk_alg :: string

datatype body = JsonKeys "jwk list" | JsonToken jwt | JsonError string | DefaultBody

record response =
  resp_status :: nat
  resp_body :: body

text \<open>The loop \<^verbatim>\<open>for kid in expired_keys: del keys[kid]\<close>.\<close>

fun del_all :: "(string \<times> key_entry) list \<Rightarrow> string list \<Rightarrow> py_error + (string \<times> key_entry) list" where
  "del_all d [] = Inr d"
| "del_all d (kid # kids) =
     (case dict_del d kid of Inl err \<Rightarrow> Inl err | Inr d' \<Rightarrow> del_all d' kids)"

text \<open>The list comprehension that builds \<^verbatim>\<open>valid_keys\<close> from \<^verbatim>\<open>keys.items()\<close>.\<close>

fun valid_keys_of :: "(string \<times> key_entry) list \<Rightarrow> py_error + jwk list" where
  "valid_keys_of [] = Inr []"
| "valid_keys_of ((kid, key) # items) =
     (case base64url_encode (int (rsa_n (public_key key))) of
        Inl err \<Rightarrow> Inl err
      | Inr n64 \<Rightarrow>
          (case base64url_encode (int (rsa_e (public_key key))) of
             Inl err \<Rightarrow> Inl err
           | Inr e64 \<Rightarrow>
               (case valid_keys_of items of
                  Inl err \<Rightarrow> Inl err
                | Inr rest \<Rightarrow>
                    Inr (\<lparr>jwk_kty = ''RSA'', jwk_use = ''sig'', jwk_kid = kid,
                          jwk_n = n64, jwk_e = e64, jwk_alg = ''RS256''\<rparr> # rest))))"

definition jwks_endpoint :: "env \<Rightarrow> server \<Rightarrow> py_error + (response \<times> server)" where
  "jwks_endpoint ev s0 =
     (let (now, s1) = datetime_now ev s0;
          expired_keys = map fst (filter (\<lambda>(kid, key). expiry key < now) (keys s1))
      in case del_all (keys s1) expired_keys of
           Inl err \<Rightarrow> Inl err
         | Inr remaining \<Rightarrow>
             (case valid_keys_of remaining of
                Inl err \<Rightarrow> Inl err
              | Inr valid_keys \<Rightarrow>
                  Inr (\<lparr>resp_status = 200, resp_body = JsonKeys valid_keys\<rparr>,
                       s1\<lparr>keys := remaining\<rparr>)))"

subsection \<open>The issuance handler\<close>

text \<open>
  \<^verbatim>\<open>jwt.encode(payload, key, algorithm, headers)\<close> of PyJWT: a \<^verbatim>\<open>datetime\<close> under
  \<^verbatim>\<open>exp\<close>, \<^verbatim>\<open>iat\<close> or \<^verbatim>\<open>nbf\<close> becomes \<^verbatim>\<open>timegm(value.utctimetuple())\<close>, whole seconds
  since the epoch (the microseconds are dropped); the header is
  \<^verbatim>\<open>{"typ": "JWT", "alg": algorithm}\<close> updated with \<^verbatim>\<open>headers\<close>; a \<^verbatim>\<open>datetime\<close>
  left in the payload cannot be written as JSON.
\<close>

definition timegm_utc :: "datetime \<Rightarrow> int" where
  "timegm_utc t = t div 1000000"

definition jwt_time_claim :: "string \<times> py_value \<Rightarrow> string \<times> py_value" where
  "jwt_time_claim c =
     (case snd c of
        PyDatetime t \<Rightarrow>
          if fst c \<in> {''exp'', ''iat'', ''nbf''} then (fst c, PyInt (timegm_utc t)) else c
      | _ \<Rightarrow> c)"

fun is_datetime :: "py_value \<Rightarrow> bool" where
  "is_datetime (PyDatetime t) = True"
| "is_datetime _ = False"

definition jwt_encode ::
  "env \<Rightarrow> (string \<times> py_value) list \<Rightarrow> pem \<Rightarrow> string \<Rightarrow> (string \<times> string) list \<Rightarrow> string + jwt" where
  "jwt_encode ev payload key algorithm headers =
     (let claims = map jwt_time_claim payload;
          header = foldl (\<lambda>h kv. dict_set h (fst kv) (snd kv))
                     [(''typ'', ''JWT''), (''alg'', algorithm)] headers
      in if list_ex (\<lambda>c. is_datetime (snd c)) claims
         then Inl ''Object of type datetime is not JSON serializable''
         else (case jws_sign ev key header claims of
                 Inl msg \<Rightarrow> Inl msg
               | Inr sig \<Rightarrow>
                   Inr \<lparr>jwt_header = header, jwt_payload = claims, jwt_signature = sig\<rparr>))"

text \<open>
  \<^verbatim>\<open>next((k for k, v in keys.items() if v['expiry'] < datetime.now(UTC)), None)\<close>:
  the generator reads the clock once for every item it examines and stops at the first
  item that passes the test.
\<close>

fun next_expired :: "env \<Rightarrow> (string \<times> key_entry) list \<Rightarrow> server \<Rightarrow> string option \<times> server" where
  "next_expired ev [] s = (None, s)"
| "next_expired ev ((k, v) # items) s =
     (let (now, s') = datetime_now ev s
      in if expiry v < now then (Some k, s') else next_expired ev items s')"

text \<open>
  \<^verbatim>\<open>
  expired = 'expired' in request.args
  kid = next(...) if expired else None
  if not kid:
      kid = generate_key(expired=expired)
  private_pem = keys[kid]['private_key'].private_bytes(...)
  exp_time = datetime.now(UTC) + timedelta(minutes=5)
  if expired:
      exp_time = datetime.now(UTC) - timedelta(minutes=5)
  payload = {'sub': 'example_user', 'iat': datetime.now(UTC), 'exp': exp_time}
  try:
      token = jwt.encode(payload, private_pem, algorithm='RS256', headers={'kid': kid})
  except Exception as e:
      return jsonify(error=f"JWT encoding error: {str(e)}"), 500
  return jsonify(token=token), 201
  \<close>
  \<^verbatim>\<open>not kid\<close> holds for \<^verbatim>\<open>None\<close> and for the empty string. Only
  \<^verbatim>\<open>jwt.encode\<close> is inside the \<^verbatim>\<open>try\<close>: an exception of \<^verbatim>\<open>generate_key\<close>, of the
  subscript or of the two additions leaves the handler.
\<close>

definition auth_endpoint ::
  "env \<Rightarrow> (string \<times> string) list \<Rightarrow> server \<Rightarrow> py_error + (response \<times> server)" where
  "auth_endpoint ev args s0 =
     (let expired = (''expired'' \<in> set (map fst args));
          (found, s1) = (if expired then next_expired ev (keys s0) s0 else (None, s0))
      in case (case found of
                 None \<Rightarrow> generate_key ev expired s1
               | Some k \<Rightarrow> if k = [] then generate_key ev expired s1 else Inr (k, s1)) of
           Inl err \<Rightarrow> Inl err
         | Inr (kid, s2) \<Rightarrow>
             (case dict_get (keys s2) kid of
                Inl err \<Rightarrow> Inl err
              | Inr entry \<Rightarrow>
                  (let private_pem = private_bytes (private_key entry);
                       (now1, s3) = datetime_now ev s2
                   in case datetime_add now1 (timedelta_minutes 5) of
                        Inl err \<Rightarrow> Inl err
                      | Inr exp1 \<Rightarrow>
                          (case (if expired
                                 then (let (now2, s') = datetime_now ev s3
                                       in case datetime_add now2 (- timedelta_minutes 5) of
                                            Inl err \<Rightarrow> Inl err
                                          | Inr exp2 \<Rightarrow> Inr (exp2, s'))
                                 else Inr (exp1, s3)) of
                             Inl err \<Rightarrow> Inl err
                           | Inr (exp_time, s4) \<Rightarrow>
                               (let (now3, s5) = datetime_now ev s4;
                                    payload = [(''sub'', PyStr ''example_user''),
                                               (''iat'', PyDatetime now3),
                                               (''exp'', PyDatetime exp_time)]
                                in case jwt_encode ev payload private_pem ''RS256''
                                          [(''kid'', kid)] of
                                     Inl msg \<Rightarrow>
                                       Inr (\<lparr>resp_status = 500,
                                             resp_body = JsonError
                                               (''JWT encoding error: '' @ msg)\<rparr>, s5)
                                   | Inr token \<Rightarrow>
                                       Inr (\<lparr>resp_status = 201,
                                             resp_body = JsonToken token\<rparr>, s5))))))"

subsection \<open>Routing\<close>

text \<open>
  The four \<^verbatim>\<open>@app.route\<close> decorators, in the order of the file. Flask adds
  \<^verbatim>\<open>OPTIONS\<close> to the methods of a rule that does not list it and answers such a
  request itself; Werkzeug adds \<^verbatim>\<open>HEAD\<close> to a rule that lists \<^verbatim>\<open>GET\<close>. A request
  is given to the first rule of its path that has its method; when rules of the path
  exist and none has the method, Werkzeug raises \<^verbatim>\<open>MethodNotAllowed\<close>, which Flask
  turns into its own 405 page, since the application registers no error handler.
\<close>

datatype view = Jwks_endpoint | Auth_endpoint | Jwks_invalid_methods | Auth_invalid_methods

record url_rule =
  rule_path :: string
  rule_methods :: "string list"
  rule_view :: view
  provide_automatic_options :: bool

definition route :: "string \<Rightarrow> string list \<Rightarrow> view \<Rightarrow> url_rule" where
  "route path methods v =
     \<lparr>rule_path = path,
      rule_methods =
        methods
        @ (if ''OPTIONS'' \<in> set methods then [] else [''OPTIONS''])
        @ (if ''GET'' \<in> set methods \<and> ''HEAD'' \<notin> set methods then [''HEAD''] else []),
      rule_view = v,
      provide_automatic_options = (''OPTIONS'' \<notin> set methods)\<rparr>"

definition url_map :: "url_rule list" where
  "url_map =
     [route ''/.well-known/jwks.json'' [''GET''] Jwks_endpoint,
      route ''/auth'' [''POST''] Auth_endpoint,
      route ''/.well-known/jwks.json'' [''PUT'', ''POST'', ''DELETE'', ''PATCH'']
        Jwks_invalid_methods,
      route ''/auth'' [''GET'', ''PUT'', ''DELETE'', ''PATCH'', ''HEAD'']
        Auth_invalid_methods]"

record request =
  req_method :: string
  req_path :: string
  req_args :: "(string \<times> string) list"

datatype routing = Matched url_rule | MethodNotAllowed | NotFound

fun match_request :: "url_rule list \<Rightarrow> bool \<Rightarrow> request \<Rightarrow> routing" where
  "match_request [] have_match_for req =
     (if have_match_for then MethodNotAllowed else NotFound)"
| "match_request (r # rules) have_match_for req =
     (if rule_path r = req_path req
      then (if req_method req \<in> set (rule_methods r) then Matched r
            else match_request rules True req)
      else match_request rules have_match_for req)"

definition jwks_invalid_methods :: "server \<Rightarrow> py_error + (response \<times> server)" where
  "jwks_invalid_methods s =
     Inr (\<lparr>resp_status = 405, resp_body = JsonError ''Method Not Allowed''\<rparr>, s)"

definition auth_invalid_methods :: "server \<Rightarrow> py_error + (response \<times> server)" where
  "auth_invalid_methods s =
     Inr (\<lparr>resp_status = 405, resp_body = JsonError ''Method Not Allowed''\<rparr>, s)"

definition full_dispatch_request ::
  "env \<Rightarrow> request \<Rightarrow> server \<Rightarrow> py_error + (response \<times> server)" where
  "full_dispatch_request ev req s =
     (case match_request url_map False req of
        NotFound \<Rightarrow> Inr (\<lparr>resp_status = 404, resp_body = DefaultBody\<rparr>, s)
      | MethodNotAllowed \<Rightarrow> Inr (\<lparr>resp_status = 405, resp_body = DefaultBody\<rparr>, s)
      | Matched r \<Rightarrow>
          if provide_automatic_options r \<and> req_method req = ''OPTIONS''
          then Inr (\<lparr>resp_status = 200, resp_body = DefaultBody\<rparr>, s)
          else (case rule_view r of
                  Jwks_endpoint \<Rightarrow> jwks_endpoint ev s
                | Auth_endpoint \<Rightarrow> auth_endpoint ev (req_args req) s
                | Jwks_invalid_methods \<Rightarrow> jwks_invalid_methods s
                | Auth_invalid_methods \<Rightarrow> auth_invalid_methods s))"

subsection \<open>Example inputs\<close>

text \<open>
  Concrete inputs at which the theorems below are evaluated: a small key pair, a store
  entry that expires at a given time, an environment with a given clock whose key
  generation and signing succeed, and a server state holding given entries.
\<close>

definition example_private_key :: rsa_private_key where
  "example_private_key =
     \<lparr>public_numbers_of = \<lparr>rsa_n = 3233, rsa_e = 65537\<rparr>, private_exponent = 2753\<rparr>"

definition example_entry :: "datetime \<Rightarrow> key_entry" where
  "example_entry t =
     \<lparr>private_key = example_private_key,
      public_key = public_numbers_of example_private_key,
      expiry = t\<rparr>"

definition example_env :: "(nat \<Rightarrow> datetime) \<Rightarrow> env" where
  "example_env clk =
     \<lparr>clock = clk,
      uuid4_str = (\<lambda>j. replicate (Suc j) (CHR ''u'')),
      rsa_generate_private_key = (\<lambda>j. example_private_key),
      rsa_generate_raises = (\<lambda>j. None),
      jws_sign = (\<lambda>key header claims. Inr ''signature'')\<rparr>"

text \<open>A second key pair, and a store entry that holds it.\<close>

definition other_private_key :: rsa_private_key where
  "other_private_key =
     \<lparr>public_numbers_of = \<lparr>rsa_n = 3127, rsa_e = 65537\<rparr>, private_exponent = 2011\<rparr>"

definition other_entry :: "datetime \<Rightarrow> key_entry" where
  "other_entry t =
     \<lparr>private_key = other_private_key,
      public_key = public_numbers_of other_private_key,
      expiry = t\<rparr>"

text \<open>A clock that stands still, and one that advances by a fixed step at every reading.\<close>

definition frozen_clock :: "datetime \<Rightarrow> nat \<Rightarrow> datetime" where
  "frozen_clock t i = t"

definition ticking_clock :: "datetime \<Rightarrow> int \<Rightarrow> nat \<Rightarrow> datetime" where
  "ticking_clock t step i = t + step * int i"

definition example_server :: "(string \<times> key_entry) list \<Rightarrow> server" where
  "example_server ks = \<lparr>keys = ks, clock_reads = 0, keys_made = length ks\<rparr>"

section \<open>Properties of the encoder\<close>

subsection \<open>Bit length and big-endian bytes\<close>

lemma bit_length_nat_upper: "m < 2 ^ bit_length_nat m"
proof (induction m rule: bit_length_nat.induct)
  case (1 m)
  show ?case
  proof (cases "m = 0")
    case True
    then show ?thesis by (simp add: bit_length_nat.simps)
  next
    case False
    with 1 have "m div 2 < 2 ^ bit_length_nat (m div 2)" by simp
    then have "m < 2 * 2 ^ bit_length_nat (m div 2)" by linarith
    with False show ?thesis by (simp add: bit_length_nat.simps [of m])
  qed
qed

lemma bit_length_nat_lower: "m \<noteq> 0 \<Longrightarrow> 2 ^ (bit_length_nat m - 1) \<le> m"
proof (induction m rule: bit_length_nat.induct)
  case (1 m)
  show ?case
  proof (cases "m div 2 = 0")
    case True
    with 1 have "m = 1" by (simp add: div_eq_0_iff) 
    then show ?thesis by (simp add: bit_length_nat.simps)
  next
    case False
    with 1 have ih: "2 ^ (bit_length_nat (m div 2) - 1) \<le> m div 2" by simp
    from False have "bit_length_nat (m div 2) \<noteq> 0" by (simp add: bit_length_nat.simps [of "m div 2"])
    then obtain j where j: "bit_length_nat (m div 2) = Suc j" by (cases "bit_length_nat (m div 2)") auto
    with ih have "2 * 2 ^ j \<le> m" by simp
    with 1 j show ?thesis by (simp add: bit_length_nat.simps [of m])
  qed
qed

lemma bit_length_nat_0: "bit_length_nat 0 = 0"
  by (simp add: bit_length_nat.simps)

lemma length_be_bytes: "length (be_bytes k v) = k"
  by (induction k arbitrary: v) auto

lemma from_bytes_big_snoc: "from_bytes_big (bs @ [b]) = from_bytes_big bs * 256 + unat b"
  by (simp add: from_bytes_big_def)

lemma from_bytes_big_be_bytes: "v < 256 ^ k \<Longrightarrow> from_bytes_big (be_bytes k v) = v"
proof (induction k arbitrary: v)
  case 0
  then show ?case by (simp add: from_bytes_big_def)
next
  case (Suc k)
  then have "v div 256 < 256 ^ k" by (simp add: less_mult_imp_div_less mult.commute)
  with Suc.IH have "from_bytes_big (be_bytes k (v div 256)) = v div 256" by simp
  then show ?case by (simp add: from_bytes_big_snoc unat_of_nat)
qed

lemma from_bytes_big_less: "from_bytes_big bs < 256 ^ length bs"
proof (induction bs rule: rev_induct)
  case Nil
  then show ?case by (simp add: from_bytes_big_def)
next
  case (snoc b bs)
  have "unat b < 256" using unsigned_less [of b] by simp
  with snoc show ?case by (simp add: from_bytes_big_snoc)
qed

lemma hd_be_bytes_nonzero:
  "0 < k \<Longrightarrow> 256 ^ (k - 1) \<le> v \<Longrightarrow> v < 256 ^ k \<Longrightarrow> hd (be_bytes k v) \<noteq> 0"
proof (induction k arbitrary: v)
  case 0
  then show ?case by simp
next
  case (Suc k)
  show ?case
  proof (cases "k = 0")
    case True
    with Suc.prems have "1 \<le> v" "v < 256" by simp_all
    then have "unat (of_nat v :: byte) = v" by (simp add: unat_of_nat)
    with \<open>1 \<le> v\<close> have "(of_nat v :: byte) \<noteq> 0" by auto
    with True \<open>v < 256\<close> show ?thesis by simp
  next
    case False
    then obtain j where j: "k = Suc j" by (cases k) auto
    from Suc.prems j have lo: "256 ^ (k - 1) \<le> v div 256"
      by (simp add: less_eq_div_iff_mult_less_eq mult.commute)
    from Suc.prems have hi: "v div 256 < 256 ^ k"
      by (simp add: less_mult_imp_div_less mult.commute)
    from False lo hi have "hd (be_bytes k (v div 256)) \<noteq> 0" by (intro Suc.IH) simp_all
    moreover from False have "be_bytes k (v div 256) \<noteq> []"
      using length_be_bytes [of k "v div 256"] by auto
    ultimately show ?thesis by simp
  qed
qed

subsection \<open>The shape of the base64 text\<close>

lemma length_b64_std_alphabet: "length b64_std_alphabet = 64"
  by (simp add: b64_std_alphabet_def)

lemma distinct_b64_std_alphabet: "distinct b64_std_alphabet"
  by (simp add: b64_std_alphabet_def)

lemma pad_notin_b64_std_alphabet: "CHR ''='' \<notin> set b64_std_alphabet"
  by (simp add: b64_std_alphabet_def)

lemma b64_digit_mem: "i < 64 \<Longrightarrow> b64_digit i \<in> set b64_std_alphabet"
  by (simp add: b64_digit_def length_b64_std_alphabet)

lemma b64_digit_not_pad: "i < 64 \<Longrightarrow> b64_digit i \<noteq> CHR ''=''"
  using b64_digit_mem pad_notin_b64_std_alphabet by metis

lemma unat_byte_less: "unat (a :: byte) < 256"
  using unsigned_less [of a] by simp

lemma sextet_bounds:
  "unat (a :: byte) div 4 < 64"
  "unat (a :: byte) mod 4 * 16 + unat (b :: byte) div 16 < 64"
  "unat (b :: byte) mod 16 * 4 + unat (c :: byte) div 64 < 64"
  "unat (c :: byte) mod 64 < 64"
  "unat (a :: byte) mod 4 * 16 < 64"
  "unat (b :: byte) mod 16 * 4 < 64"
proof -
  have a: "unat a < 256" and b: "unat b < 256" and c: "unat c < 256"
    by (rule unat_byte_less)+
  show "unat a div 4 < 64" using a by arith
  show "unat a mod 4 * 16 + unat b div 16 < 64" using b by arith
  show "unat b mod 16 * 4 + unat c div 64 < 64" using c by arith
  show "unat c mod 64 < 64" by arith
  show "unat a mod 4 * 16 < 64" by arith
  show "unat b mod 16 * 4 < 64" by arith
qed

text \<open>The encoder's output: digits of the alphabet, then at most two padding characters.\<close>

lemma b64encode_shape:
  "\<exists>body k. b64encode bs = body @ replicate k (CHR ''='') \<and> set body \<subseteq> set b64_std_alphabet
     \<and> k \<le> 2 \<and> (length body + k) mod 4 = 0"
proof (induction bs rule: b64encode.induct)
  case (1 a b c rest)
  then obtain body k where ih: "b64encode rest = body @ replicate k (CHR ''='')"
    "set body \<subseteq> set b64_std_alphabet" "k \<le> 2" "(length body + k) mod 4 = 0"
    by auto
  let ?q = "[b64_digit (unat a div 4),
      b64_digit (unat a mod 4 * 16 + unat b div 16),
      b64_digit (unat b mod 16 * 4 + unat c div 64),
      b64_digit (unat c mod 64)]"
  show ?case
    apply (rule exI [of _ "?q @ body"])
    apply (rule exI [of _ k])
    using ih by (simp add: b64_digit_mem sextet_bounds)
next
  case (2 a b)
  let ?q = "[b64_digit (unat a div 4),
      b64_digit (unat a mod 4 * 16 + unat b div 16),
      b64_digit (unat b mod 16 * 4)]"
  show ?case
    apply (rule exI [of _ ?q])
    apply (rule exI [of _ 1])
    by (simp add: b64_digit_mem sextet_bounds)
next
  case (3 a)
  let ?q = "[b64_digit (unat a div 4), b64_digit (unat a mod 4 * 16)]"
  show ?case
    apply (rule exI [of _ ?q])
    apply (rule exI [of _ 2])
    by (simp add: b64_digit_mem sextet_bounds numeral_2_eq_2)
next
  case 4
  show ?case
    apply (rule exI [of _ "[]"])
    apply (rule exI [of _ 0])
    by simp
qed

lemma rstrip_body: "p \<notin> set body \<Longrightarrow> rstrip p (body @ replicate k p) = body"
proof -
  assume np: "p \<notin> set body"
  have "dropWhile (\<lambda>c. c = p) (replicate k p @ rev body) = dropWhile (\<lambda>c. c = p) (rev body)"
    by (rule dropWhile_append2) simp
  also have "\<dots> = rev body"
  proof -
    have "p \<notin> set (rev body)" using np by simp
    then show ?thesis by (cases "rev body") auto
  qed
  finally show ?thesis by (simp add: rstrip_def)
qed

lemma map_encode_translation_alphabet:
  "map urlsafe_encode_translation b64_std_alphabet = b64_url_alphabet"
  by (simp add: b64_std_alphabet_def b64_url_alphabet_def urlsafe_encode_translation_def)

lemma encode_translation_pad [simp]:
  "urlsafe_encode_translation (CHR ''='') = CHR ''=''"
  by (simp add: urlsafe_encode_translation_def)

lemma pad_notin_b64_url_alphabet: "CHR ''='' \<notin> set b64_url_alphabet"
  by (simp add: b64_url_alphabet_def)

lemma urlsafe_b64encode_shape:
  "\<exists>body k. urlsafe_b64encode bs = body @ replicate k (CHR ''='') \<and> set body \<subseteq> set b64_url_alphabet
     \<and> k \<le> 2 \<and> (length body + k) mod 4 = 0"
proof -
  obtain body k where sh: "b64encode bs = body @ replicate k (CHR ''='')"
    "set body \<subseteq> set b64_std_alphabet" "k \<le> 2" "(length body + k) mod 4 = 0"
    using b64encode_shape [of bs] by auto
  have "urlsafe_b64encode bs = map urlsafe_encode_translation body @ replicate k (CHR ''='')"
    using sh(1) by (simp add: urlsafe_b64encode_def)
  moreover have "set (map urlsafe_encode_translation body) \<subseteq> set b64_url_alphabet"
  proof -
    have "set (map urlsafe_encode_translation body) \<subseteq> set (map urlsafe_encode_translation b64_std_alphabet)"
      using sh(2) by auto
    then show ?thesis by (simp only: map_encode_translation_alphabet)
  qed
  moreover have "(length (map urlsafe_encode_translation body) + k) mod 4 = 0"
    using sh(4) by simp
  ultimately show ?thesis
    apply (intro exI [of _ "map urlsafe_encode_translation body"] exI [of _ k])
    using sh(3) by simp
qed

lemma rstrip_urlsafe_b64encode:
  "set (rstrip (CHR ''='') (urlsafe_b64encode bs)) \<subseteq> set b64_url_alphabet"
  "CHR ''='' \<notin> set (rstrip (CHR ''='') (urlsafe_b64encode bs))"
  "rstrip (CHR ''='') (urlsafe_b64encode bs)
     @ replicate ((4 - length (rstrip (CHR ''='') (urlsafe_b64encode bs)) mod 4) mod 4) (CHR ''='')
   = urlsafe_b64encode bs"
proof -
  obtain body k where sh: "urlsafe_b64encode bs = body @ replicate k (CHR ''='')"
    "set body \<subseteq> set b64_url_alphabet" "k \<le> 2" "(length body + k) mod 4 = 0"
    using urlsafe_b64encode_shape [of bs] by auto
  have np: "CHR ''='' \<notin> set body" using sh(2) pad_notin_b64_url_alphabet by blast
  have r: "rstrip (CHR ''='') (urlsafe_b64encode bs) = body"
    using np by (simp add: sh(1) rstrip_body)
  show "set (rstrip (CHR ''='') (urlsafe_b64encode bs)) \<subseteq> set b64_url_alphabet"
    using r sh(2) by simp
  show "CHR ''='' \<notin> set (rstrip (CHR ''='') (urlsafe_b64encode bs))"
    using r np by simp
  have "(4 - length body mod 4) mod 4 = k"
  proof -
    define m where "m = length body mod 4"
    have m4: "m < 4" by (simp add: m_def)
    have "(m + k) mod 4 = 0" using sh(4) by (simp add: m_def mod_add_left_eq)
    then have "4 dvd m + k" by (simp add: mod_eq_0_iff_dvd)
    then obtain q where q: "m + k = 4 * q" by (auto simp: dvd_def)
    with m4 sh(3) have "q = 0 \<or> q = 1" by arith
    with q m4 sh(3) have "(4 - m) mod 4 = k" by auto
    then show ?thesis by (simp add: m_def)
  qed
  then show "rstrip (CHR ''='') (urlsafe_b64encode bs)
     @ replicate ((4 - length (rstrip (CHR ''='') (urlsafe_b64encode bs)) mod 4) mod 4) (CHR ''='')
   = urlsafe_b64encode bs"
    using r sh(1) by simp
qed

subsection \<open>Decoding what was encoded\<close>

lemma index_of_nth: "distinct xs \<Longrightarrow> i < length xs \<Longrightarrow> index_of (xs ! i) xs = Some i"
proof (induction xs arbitrary: i)
  case Nil
  then show ?case by simp
next
  case (Cons x xs)
  show ?case
  proof (cases i)
    case 0
    then show ?thesis by simp
  next
    case (Suc j)
    with Cons.prems have "xs ! j \<in> set xs" "x \<notin> set xs" by simp_all
    then have "xs ! j \<noteq> x" by blast
    with Suc Cons show ?thesis by simp
  qed
qed

lemma sextet_join:
  fixes x y z :: nat
  assumes "y < 256" "z < 256"
  shows "x div 4 * 4 + (x mod 4 * 16 + y div 16) div 16 = x"
    and "(x mod 4 * 16 + y div 16) mod 16 * 16 + (y mod 16 * 4 + z div 64) div 4 = y"
    and "(y mod 16 * 4 + z div 64) mod 4 * 64 + z mod 64 = z"
    and "x div 4 * 4 + (x mod 4 * 16) div 16 = x"
    and "(x mod 4 * 16 + y div 16) mod 16 * 16 + (y mod 16 * 4) div 4 = y"
proof -
  have y16: "y div 16 < 16" using assms(1) by arith
  have z64: "z div 64 < 4" using assms(2) by arith
  have a: "(x mod 4 * 16 + y div 16) div 16 = x mod 4" using y16 by simp
  have b: "(x mod 4 * 16 + y div 16) mod 16 = y div 16" using y16 by simp
  have c: "(y mod 16 * 4 + z div 64) div 4 = y mod 16" using z64 by simp
  have d: "(y mod 16 * 4 + z div 64) mod 4 = z div 64" using z64 by simp
  show "x div 4 * 4 + (x mod 4 * 16 + y div 16) div 16 = x" by (simp add: a)
  show "(x mod 4 * 16 + y div 16) mod 16 * 16 + (y mod 16 * 4 + z div 64) div 4 = y"
    using y16 by (simp add: b c)
  show "(y mod 16 * 4 + z div 64) mod 4 * 64 + z mod 64 = z" using z64 by (simp add: d)
  show "x div 4 * 4 + (x mod 4 * 16) div 16 = x" by simp
  show "(x mod 4 * 16 + y div 16) mod 16 * 16 + (y mod 16 * 4) div 4 = y"
    using y16 by (simp add: b)
qed

lemma of_nat_unat_byte: "of_nat (unat (a :: byte)) = a"
  by simp

lemma length_b64_url_alphabet: "length b64_url_alphabet = 64"
  by (simp add: b64_url_alphabet_def)

lemma distinct_b64_url_alphabet: "distinct b64_url_alphabet"
  by (simp add: b64_url_alphabet_def)

text \<open>What the encoder writes for a sextet is the digit of the URL-safe alphabet.\<close>

lemma url_digit:
  assumes "i < 64"
  shows "urlsafe_encode_translation (b64_digit i) = b64_url_alphabet ! i"
proof -
  have "map urlsafe_encode_translation b64_std_alphabet ! i = b64_url_alphabet ! i"
    by (simp only: map_encode_translation_alphabet)
  with assms show ?thesis by (simp add: b64_digit_def length_b64_std_alphabet)
qed

lemma b64url_index_digit:
  "i < 64 \<Longrightarrow> b64url_index (urlsafe_encode_translation (b64_digit i)) = Some i"
  by (simp add: url_digit b64url_index_def index_of_nth distinct_b64_url_alphabet
      length_b64_url_alphabet)

lemma url_digit_not_pad:
  assumes "i < 64"
  shows "urlsafe_encode_translation (b64_digit i) \<noteq> CHR ''=''"
proof -
  have "b64_url_alphabet ! i \<in> set b64_url_alphabet"
    using assms by (simp add: length_b64_url_alphabet)
  with pad_notin_b64_url_alphabet show ?thesis
    using assms by (metis url_digit)
qed

lemma rstrip_Cons: "x \<noteq> p \<Longrightarrow> rstrip p (x # xs) = x # rstrip p xs"
  by (simp add: rstrip_def dropWhile_append)

lemma rstrip_pads [simp]: "rstrip p [] = []" "rstrip p [p] = []" "rstrip p [p, p] = []"
  by (simp_all add: rstrip_def)

lemma b64url_decode_bytes_encode:
  "b64url_decode_bytes (rstrip (CHR ''='') (urlsafe_b64encode bs)) = Some bs"
proof (induction bs rule: b64encode.induct)
  case (1 a b c rest)
  define i0 where "i0 = unat a div 4"
  define i1 where "i1 = unat a mod 4 * 16 + unat b div 16"
  define i2 where "i2 = unat b mod 16 * 4 + unat c div 64"
  define i3 where "i3 = unat c mod 64"
  have bound: "i0 < 64" "i1 < 64" "i2 < 64" "i3 < 64"
    by (simp_all add: i0_def i1_def i2_def i3_def sextet_bounds)
  have enc: "urlsafe_b64encode (a # b # c # rest) =
      urlsafe_encode_translation (b64_digit i0) # urlsafe_encode_translation (b64_digit i1) #
      urlsafe_encode_translation (b64_digit i2) # urlsafe_encode_translation (b64_digit i3) #
      urlsafe_b64encode rest"
    by (simp add: urlsafe_b64encode_def i0_def i1_def i2_def i3_def)
  have bytes: "(of_nat (i0 * 4 + i1 div 16) :: byte) = a"
    "(of_nat (i1 mod 16 * 16 + i2 div 4) :: byte) = b"
    "(of_nat (i2 mod 4 * 64 + i3) :: byte) = c"
    unfolding i0_def i1_def i2_def i3_def
    by (simp_all only: sextet_join [OF unat_byte_less unat_byte_less] of_nat_unat_byte)
  show ?case
    unfolding enc using 1 bound bytes
    by (simp add: rstrip_Cons url_digit_not_pad b64url_index_digit del: of_nat_add of_nat_mult)
next
  case (2 a b)
  define i0 where "i0 = unat a div 4"
  define i1 where "i1 = unat a mod 4 * 16 + unat b div 16"
  define i2 where "i2 = unat b mod 16 * 4"
  have bound: "i0 < 64" "i1 < 64" "i2 < 64"
    by (simp_all add: i0_def i1_def i2_def sextet_bounds)
  have enc: "urlsafe_b64encode [a, b] =
      [urlsafe_encode_translation (b64_digit i0), urlsafe_encode_translation (b64_digit i1),
       urlsafe_encode_translation (b64_digit i2), CHR ''='']"
    by (simp add: urlsafe_b64encode_def i0_def i1_def i2_def)
  have bytes: "(of_nat (i0 * 4 + i1 div 16) :: byte) = a"
    "(of_nat (i1 mod 16 * 16 + i2 div 4) :: byte) = b"
    unfolding i0_def i1_def i2_def
    by (simp_all only: sextet_join [OF unat_byte_less unat_byte_less] of_nat_unat_byte)
  have zero: "i2 mod 4 = 0" by (simp add: i2_def)
  show ?case
    unfolding enc using bound bytes zero
    by (simp add: rstrip_Cons url_digit_not_pad b64url_index_digit del: of_nat_add of_nat_mult)
next
  case (3 a)
  define i0 where "i0 = unat a div 4"
  define i1 where "i1 = unat a mod 4 * 16"
  have bound: "i0 < 64" "i1 < 64"
    by (simp_all add: i0_def i1_def sextet_bounds)
  have enc: "urlsafe_b64encode [a] =
      [urlsafe_encode_translation (b64_digit i0), urlsafe_encode_translation (b64_digit i1),
       CHR ''='', CHR ''='']"
    by (simp add: urlsafe_b64encode_def i0_def i1_def)
  have bytes: "(of_nat (i0 * 4 + i1 div 16) :: byte) = a"
    unfolding i0_def i1_def
    by (simp only: sextet_join [OF unat_byte_less unat_byte_less] of_nat_unat_byte)
  have zero: "i1 mod 16 = 0" by (simp add: i1_def)
  show ?case
    unfolding enc using bound bytes zero
    by (simp add: rstrip_Cons url_digit_not_pad b64url_index_digit del: of_nat_add of_nat_mult)
next
  case 4
  show ?case by (simp add: urlsafe_b64encode_def)
qed

lemma base64url_decode_rstrip:
  "base64url_decode (rstrip (CHR ''='') (urlsafe_b64encode bs)) = Some (int (from_bytes_big bs))"
  by (simp add: base64url_decode_def b64url_decode_bytes_encode)

text \<open>
  The decoder is strict: it refuses the characters of the standard alphabet that the
  URL-safe one replaces, a padding character, and a last group whose unused bits are set.
\<close>

lemma base64url_decode_refuses:
  "base64url_decode ''+/8'' = None"
  "base64url_decode ''AQ=='' = None"
  "base64url_decode ''DKF'' = None"
  "base64url_decode ''DKE'' = Some 3233"
  by (simp_all add: base64url_decode_def b64url_index_def b64_url_alphabet_def
      from_bytes_big_def)

lemma byte_length_fits: "m < 256 ^ ((bit_length_nat m + 7) div 8)"
proof -
  have "bit_length_nat m \<le> 8 * ((bit_length_nat m + 7) div 8)" by arith
  then have "(2::nat) ^ bit_length_nat m \<le> 2 ^ (8 * ((bit_length_nat m + 7) div 8))"
    by (rule power_increasing) simp
  also have "\<dots> = 256 ^ ((bit_length_nat m + 7) div 8)" by (simp add: power_mult)
  finally show ?thesis using bit_length_nat_upper [of m] by linarith
qed

lemma byte_length_tight:
  assumes "m \<noteq> 0"
  shows "256 ^ ((bit_length_nat m + 7) div 8 - 1) \<le> m"
proof -
  have pos: "bit_length_nat m \<noteq> 0" using assms by (simp add: bit_length_nat.simps [of m])
  then have "8 * ((bit_length_nat m + 7) div 8 - 1) \<le> bit_length_nat m - 1" by arith
  then have "(2::nat) ^ (8 * ((bit_length_nat m + 7) div 8 - 1)) \<le> 2 ^ (bit_length_nat m - 1)"
    by (rule power_increasing) simp
  moreover have "(2::nat) ^ (8 * ((bit_length_nat m + 7) div 8 - 1))
      = 256 ^ ((bit_length_nat m + 7) div 8 - 1)" by (simp add: power_mult)
  ultimately show ?thesis using bit_length_nat_lower [OF assms] by linarith
qed

lemma base64url_encode_nonneg:
  assumes "0 \<le> v"
  shows "base64url_encode v =
     Inr (rstrip (CHR ''='')
       (urlsafe_b64encode (be_bytes ((bit_length v + 7) div 8) (nat v))))"
proof -
  have "nat v < 256 ^ ((bit_length v + 7) div 8)"
    using byte_length_fits [of "nat v"] assms by (simp add: bit_length_def)
  then have "v < 256 ^ ((bit_length v + 7) div 8)" using assms
    by (metis nat_less_iff of_nat_numeral of_nat_power)
  with assms show ?thesis by (simp add: base64url_encode_def to_bytes_big_def)
qed

lemma base64url_decode_encode:
  assumes "0 \<le> v"
  shows "\<exists>s. base64url_encode v = Inr s \<and> base64url_decode s = Some v"
proof -
  have "nat v < 256 ^ ((bit_length v + 7) div 8)"
    using byte_length_fits [of "nat v"] assms by (simp add: bit_length_def)
  then have "from_bytes_big (be_bytes ((bit_length v + 7) div 8) (nat v)) = nat v"
    by (rule from_bytes_big_be_bytes)
  with assms show ?thesis
    by (simp add: base64url_encode_nonneg base64url_decode_rstrip)
qed

lemma to_bytes_big_nonneg:
  assumes "0 \<le> v"
  shows "to_bytes_big v ((bit_length v + 7) div 8) = Inr (be_bytes ((bit_length v + 7) div 8) (nat v))"
proof -
  have "nat v < 256 ^ ((bit_length v + 7) div 8)"
    using byte_length_fits [of "nat v"] assms by (simp add: bit_length_def)
  then have "v < 256 ^ ((bit_length v + 7) div 8)" using assms
    by (metis nat_less_iff of_nat_numeral of_nat_power)
  with assms show ?thesis by (simp add: to_bytes_big_def)
qed

lemma minimal_bytes_props:
  assumes "0 \<le> v"
  defines "bs \<equiv> be_bytes ((bit_length v + 7) div 8) (nat v)"
  shows "int (from_bytes_big bs) = v"
    and "0 \<notin> set (take 1 bs)"
    and "(bs = []) = (v = 0)"
    and "int (from_bytes_big bs') = v \<Longrightarrow> length bs \<le> length bs'"
proof -
  let ?L = "(bit_length v + 7) div 8"
  have bl: "bit_length v = bit_length_nat (nat v)" using assms(1) by (simp add: bit_length_def)
  have fits: "nat v < 256 ^ ?L" using byte_length_fits [of "nat v"] by (simp add: bl)
  have len: "length bs = ?L" by (simp add: bs_def length_be_bytes)
  show val: "int (from_bytes_big bs) = v"
    using from_bytes_big_be_bytes [OF fits] assms(1) by (simp add: bs_def)
  show empty: "(bs = []) = (v = 0)"
  proof
    assume "bs = []"
    with val show "v = 0" by (simp add: from_bytes_big_def)
  next
    assume "v = 0"
    then have "?L = 0" by (simp add: bit_length_def bit_length_nat.simps)
    with len show "bs = []" by simp
  qed
  show "0 \<notin> set (take 1 bs)"
  proof (cases "v = 0")
    case True
    with empty show ?thesis by simp
  next
    case False
    then have nz: "nat v \<noteq> 0" using assms(1) by simp
    from False empty have ne: "bs \<noteq> []" by simp
    then have "0 < length bs" by simp
    then have Lpos: "0 < ?L" by (simp only: len)
    have "256 ^ (?L - 1) \<le> nat v" using byte_length_tight [OF nz] by (simp add: bl)
    with Lpos fits have "hd bs \<noteq> 0" unfolding bs_def by (intro hd_be_bytes_nonzero)
    with ne show ?thesis by (cases bs) auto
  qed
  show "length bs \<le> length bs'" if eq: "int (from_bytes_big bs') = v"
  proof (cases "v = 0")
    case True
    with empty show ?thesis by simp
  next
    case False
    then have nz: "nat v \<noteq> 0" using assms(1) by simp
    have "(256::nat) ^ (?L - 1) \<le> nat v" using byte_length_tight [OF nz] by (simp add: bl)
    also have "nat v = from_bytes_big bs'" using eq by auto
    also have "\<dots> < 256 ^ length bs'" by (rule from_bytes_big_less)
    finally have "?L - 1 < length bs'" by (simp add: power_strict_increasing_iff)
    then show ?thesis using len by simp
  qed
qed

subsection \<open>Claim C5: the published encoding of a key component\<close>

text \<open>
  C5, as amended. For every integer \<open>v \<ge> 0\<close>, \<^verbatim>\<open>base64url_encode\<close> returns the
  base64url text, with the padding stripped, of the bytes \<open>bs\<close> that \<^verbatim>\<open>to_bytes\<close>
  produces: \<open>bs\<close> read as a big-endian integer is \<open>v\<close>, \<open>bs\<close> does not start with a
  zero byte, no byte string of the same value is shorter, and \<open>bs\<close> is empty exactly
  when \<open>v = 0\<close>. The text contains no \<^verbatim>\<open>=\<close> and only characters of the URL-safe
  alphabet.
\<close>

theorem base64url_encode_minimal_big_endian:
  assumes "0 \<le> v"
  shows "\<exists>bs. to_bytes_big v ((bit_length v + 7) div 8) = Inr bs
           \<and> base64url_encode v = Inr (rstrip (CHR ''='') (urlsafe_b64encode bs))
           \<and> int (from_bytes_big bs) = v
           \<and> 0 \<notin> set (take 1 bs)
           \<and> (bs = []) = (v = 0)
           \<and> (\<forall>bs'. int (from_bytes_big bs') = v \<longrightarrow> length bs \<le> length bs')
           \<and> CHR ''='' \<notin> set (rstrip (CHR ''='') (urlsafe_b64encode bs))
           \<and> set (rstrip (CHR ''='') (urlsafe_b64encode bs)) \<subseteq> set b64_url_alphabet"
proof -
  let ?bs = "be_bytes ((bit_length v + 7) div 8) (nat v)"
  have "to_bytes_big v ((bit_length v + 7) div 8) = Inr ?bs"
    by (rule to_bytes_big_nonneg [OF assms])
  moreover have "base64url_encode v = Inr (rstrip (CHR ''='') (urlsafe_b64encode ?bs))"
    by (rule base64url_encode_nonneg [OF assms])
  moreover have "\<forall>bs'. int (from_bytes_big bs') = v \<longrightarrow> length ?bs \<le> length bs'"
    using minimal_bytes_props(4) [OF assms] by blast
  ultimately show ?thesis
    using minimal_bytes_props(1,2,3) [OF assms] rstrip_urlsafe_b64encode(1,2) [of ?bs]
    by (intro exI [of _ ?bs] conjI)
qed

text \<open>The theorem at the public exponent 65537, whose encoding is \<^verbatim>\<open>AQAB\<close>.\<close>

theorem base64url_encode_minimal_big_endian_witness:
  "(0::int) \<le> 65537
   \<and> to_bytes_big 65537 ((bit_length 65537 + 7) div 8) = Inr [1, 0, 1]
   \<and> base64url_encode 65537 = Inr ''AQAB''
   \<and> from_bytes_big [1, 0, 1] = 65537"
proof -
  have v: "(0::int) \<le> 65537" by simp
  have bl: "bit_length 65537 = 17"
    by (simp add: bit_length_def bit_length_nat.simps)
  have tb: "to_bytes_big 65537 ((bit_length 65537 + 7) div 8) = Inr [1, 0, 1]"
    by (simp add: bl to_bytes_big_def numeral_3_eq_3)
  from base64url_encode_minimal_big_endian [OF v] tb
  have "base64url_encode 65537 = Inr (rstrip (CHR ''='') (urlsafe_b64encode [1, 0, 1]))"
    by auto
  moreover have "rstrip (CHR ''='') (urlsafe_b64encode [1, 0, 1]) = ''AQAB''"
    by (simp add: rstrip_def urlsafe_b64encode_def b64_digit_def b64_std_alphabet_def
        urlsafe_encode_translation_def)
  moreover have "from_bytes_big [1, 0, 1] = 65537" by (simp add: from_bytes_big_def)
  ultimately show ?thesis using tb by simp
qed

text \<open>
  C5 as stated says that zero is encoded as a single zero byte, whose base64url text is
  \<^verbatim>\<open>AA\<close>. The code computes the length \<open>(0 + 7) div 8 = 0\<close>, so zero becomes the
  empty byte string and the empty text.
\<close>

theorem base64url_encode_zero_counterexample:
  "to_bytes_big 0 ((bit_length 0 + 7) div 8) = Inr []
   \<and> base64url_encode 0 = Inr []
   \<and> rstrip (CHR ''='') (urlsafe_b64encode [0]) = ''AA''
   \<and> base64url_encode 0 \<noteq> Inr (rstrip (CHR ''='') (urlsafe_b64encode [0]))"
  by (simp add: base64url_encode_def to_bytes_big_def bit_length_def bit_length_nat.simps
      rstrip_def urlsafe_b64encode_def b64_digit_def b64_std_alphabet_def
      urlsafe_encode_translation_def)

section \<open>The discovery handler\<close>

subsection \<open>The purge and the listing\<close>

lemma dict_del_present:
  "k \<in> set (map fst d) \<Longrightarrow> dict_del d k = Inr (filter (\<lambda>kv. fst kv \<noteq> k) d)"
  by (simp add: dict_del_def)

lemma del_all_filter:
  "set kids \<subseteq> set (map fst d) \<Longrightarrow> distinct kids \<Longrightarrow>
     del_all d kids = Inr (filter (\<lambda>kv. fst kv \<notin> set kids) d)"
proof (induction kids arbitrary: d)
  case Nil
  then show ?case by simp
next
  case (Cons kid kids)
  let ?d' = "filter (\<lambda>kv. fst kv \<noteq> kid) d"
  from Cons.prems have del: "dict_del d kid = Inr ?d'" by (simp add: dict_del_present)
  have "set kids \<subseteq> set (map fst ?d')"
  proof
    fix x assume x: "x \<in> set kids"
    with Cons.prems have "x \<noteq> kid" by auto
    moreover from x Cons.prems obtain kv where "kv \<in> set d" "fst kv = x" by auto
    ultimately show "x \<in> set (map fst ?d')" by force
  qed
  moreover from Cons.prems have "distinct kids" by simp
  ultimately have "del_all ?d' kids = Inr (filter (\<lambda>kv. fst kv \<notin> set kids) ?d')"
    by (rule Cons.IH)
  moreover have "filter (\<lambda>kv. fst kv \<notin> set kids) ?d' = filter (\<lambda>kv. fst kv \<notin> set (kid # kids)) d"
    by (auto intro: filter_cong)
  ultimately show ?case using del by simp
qed

lemma unique_entry:
  "distinct (map fst d) \<Longrightarrow> x \<in> set d \<Longrightarrow> y \<in> set d \<Longrightarrow> fst x = fst y \<Longrightarrow> x = y"
  by (metis distinct_map inj_onD)

lemma del_all_expired:
  assumes "distinct (map fst d)"
  shows "del_all d (map fst (filter P d)) = Inr (filter (\<lambda>kv. \<not> P kv) d)"
proof -
  have "set (map fst (filter P d)) \<subseteq> set (map fst d)" by auto
  moreover have "distinct (map fst (filter P d))" using assms by (rule distinct_map_filter)
  ultimately have "del_all d (map fst (filter P d))
      = Inr (filter (\<lambda>kv. fst kv \<notin> set (map fst (filter P d))) d)"
    by (rule del_all_filter)
  moreover have "filter (\<lambda>kv. fst kv \<notin> set (map fst (filter P d))) d = filter (\<lambda>kv. \<not> P kv) d"
  proof (rule filter_cong [OF refl])
    fix kv assume kv: "kv \<in> set d"
    show "(fst kv \<notin> set (map fst (filter P d))) = (\<not> P kv)"
    proof
      assume "fst kv \<notin> set (map fst (filter P d))"
      with kv show "\<not> P kv" by force
    next
      assume np: "\<not> P kv"
      show "fst kv \<notin> set (map fst (filter P d))"
      proof
        assume "fst kv \<in> set (map fst (filter P d))"
        then obtain x where x: "x \<in> set d" "P x" "fst x = fst kv" by auto
        with kv assms have "x = kv" by (intro unique_entry [of d])
        with x np show False by simp
      qed
    qed
  qed
  ultimately show ?thesis by simp
qed

lemma base64url_encode_nat:
  "base64url_encode (int m) =
     Inr (rstrip (CHR ''='') (urlsafe_b64encode (be_bytes ((bit_length (int m) + 7) div 8) m)))"
  using base64url_encode_nonneg [of "int m"] by simp

text \<open>The comprehension never raises, and lists the items in order.\<close>

lemma valid_keys_of_items:
  "\<exists>jwks. valid_keys_of items = Inr jwks
     \<and> list_all2 (\<lambda>j kv. jwk_kid j = fst kv
          \<and> base64url_encode (int (rsa_n (public_key (snd kv)))) = Inr (jwk_n j)
          \<and> base64url_encode (int (rsa_e (public_key (snd kv)))) = Inr (jwk_e j)
          \<and> jwk_kty j = ''RSA'' \<and> jwk_use j = ''sig'' \<and> jwk_alg j = ''RS256'') jwks items"
proof (induction items)
  case Nil
  then show ?case by simp
next
  case (Cons kv items)
  then obtain jwks where ih: "valid_keys_of items = Inr jwks"
    "list_all2 (\<lambda>j kv. jwk_kid j = fst kv
          \<and> base64url_encode (int (rsa_n (public_key (snd kv)))) = Inr (jwk_n j)
          \<and> base64url_encode (int (rsa_e (public_key (snd kv)))) = Inr (jwk_e j)
          \<and> jwk_kty j = ''RSA'' \<and> jwk_use j = ''sig'' \<and> jwk_alg j = ''RS256'') jwks items"
    by auto
  obtain kid key where kv: "kv = (kid, key)" by (cases kv)
  show ?case
    unfolding kv using ih
    by (simp add: base64url_encode_nat)
qed

lemma jwks_endpoint_run:
  assumes "distinct (map fst (keys s))"
  shows "\<exists>jwks s'. jwks_endpoint ev s = Inr (\<lparr>resp_status = 200, resp_body = JsonKeys jwks\<rparr>, s')
     \<and> keys s' = filter (\<lambda>kv. \<not> expiry (snd kv) < clock ev (clock_reads s)) (keys s)
     \<and> clock_reads s' = Suc (clock_reads s) \<and> keys_made s' = keys_made s
     \<and> list_all2 (\<lambda>j kv. jwk_kid j = fst kv
          \<and> base64url_encode (int (rsa_n (public_key (snd kv)))) = Inr (jwk_n j)
          \<and> base64url_encode (int (rsa_e (public_key (snd kv)))) = Inr (jwk_e j)
          \<and> jwk_kty j = ''RSA'' \<and> jwk_use j = ''sig'' \<and> jwk_alg j = ''RS256'') jwks (keys s')"
proof -
  let ?now = "clock ev (clock_reads s)"
  let ?rem = "filter (\<lambda>kv. \<not> expiry (snd kv) < ?now) (keys s)"
  have del: "del_all (keys s) (map fst (filter (\<lambda>kv. expiry (snd kv) < ?now) (keys s))) = Inr ?rem"
    using assms by (rule del_all_expired)
  obtain jwks where j: "valid_keys_of ?rem = Inr jwks"
    "list_all2 (\<lambda>j kv. jwk_kid j = fst kv
          \<and> base64url_encode (int (rsa_n (public_key (snd kv)))) = Inr (jwk_n j)
          \<and> base64url_encode (int (rsa_e (public_key (snd kv)))) = Inr (jwk_e j)
          \<and> jwk_kty j = ''RSA'' \<and> jwk_use j = ''sig'' \<and> jwk_alg j = ''RS256'') jwks ?rem"
    using valid_keys_of_items [of ?rem] by auto
  have "jwks_endpoint ev s = Inr (\<lparr>resp_status = 200, resp_body = JsonKeys jwks\<rparr>,
      s\<lparr>clock_reads := Suc (clock_reads s), keys := ?rem\<rparr>)"
    using del j(1) by (simp add: jwks_endpoint_def datetime_now_def case_prod_unfold)
  with j(2) show ?thesis by simp
qed

subsection \<open>Evaluating the example inputs\<close>

lemmas example_defs =
  example_private_key_def example_entry_def example_env_def example_server_def
  frozen_clock_def ticking_clock_def

lemma bit_length_3233: "bit_length 3233 = 12"
  by (simp add: bit_length_def bit_length_nat.simps)

lemma bit_length_65537: "bit_length 65537 = 17"
  by (simp add: bit_length_def bit_length_nat.simps)

lemma be_bytes_2: "be_bytes 2 v = [of_nat (v div 256 mod 256), of_nat (v mod 256)]"
  by (simp add: numeral_2_eq_2)

lemma be_bytes_3:
  "be_bytes 3 v = [of_nat (v div 256 div 256 mod 256), of_nat (v div 256 mod 256), of_nat (v mod 256)]"
  by (simp add: numeral_3_eq_3)

lemmas text_eval =
  rstrip_def urlsafe_b64encode_def b64_digit_def b64_std_alphabet_def
  urlsafe_encode_translation_def

lemma encode_3233: "base64url_encode 3233 = Inr ''DKE''"
  by (simp add: base64url_encode_def bit_length_3233 to_bytes_big_def be_bytes_2 text_eval)

lemma encode_65537: "base64url_encode 65537 = Inr ''AQAB''"
  by (simp add: base64url_encode_def bit_length_65537 to_bytes_big_def be_bytes_3 text_eval)

subsection \<open>Claim C1: the validity window\<close>

text \<open>
  C1. Let \<open>now\<close> be the clock reading of the request. In a store whose ids are
  distinct (a dictionary), the handler answers 200, leaves in the store exactly the
  entries with \<open>now \<le> expiry\<close>, in their order, and lists exactly their ids: an id of
  the store is listed if and only if its entry has \<open>now \<le> expiry\<close>, and no entry with
  \<open>expiry < now\<close> remains afterwards.
\<close>

theorem jwks_endpoint_validity_window:
  assumes "distinct (map fst (keys s))"
  shows "\<exists>jwks s'. jwks_endpoint ev s = Inr (\<lparr>resp_status = 200, resp_body = JsonKeys jwks\<rparr>, s')
     \<and> keys s' = filter (\<lambda>kv. clock ev (clock_reads s) \<le> expiry (snd kv)) (keys s)
     \<and> map jwk_kid jwks = map fst (filter (\<lambda>kv. clock ev (clock_reads s) \<le> expiry (snd kv)) (keys s))
     \<and> (\<forall>kv \<in> set (keys s).
           (fst kv \<in> set (map jwk_kid jwks)) = (clock ev (clock_reads s) \<le> expiry (snd kv)))
     \<and> (\<forall>kv \<in> set (keys s'). \<not> expiry (snd kv) < clock ev (clock_reads s))"
proof -
  let ?now = "clock ev (clock_reads s)"
  let ?valid = "filter (\<lambda>kv. ?now \<le> expiry (snd kv)) (keys s)"
  have same: "filter (\<lambda>kv. \<not> expiry (snd kv) < ?now) (keys s) = ?valid"
    by (rule filter_cong) auto
  from jwks_endpoint_run [OF assms, of ev] obtain jwks s' where
    run: "jwks_endpoint ev s = Inr (\<lparr>resp_status = 200, resp_body = JsonKeys jwks\<rparr>, s')"
    and st: "keys s' = ?valid"
    and rel: "list_all2 (\<lambda>j kv. jwk_kid j = fst kv
          \<and> base64url_encode (int (rsa_n (public_key (snd kv)))) = Inr (jwk_n j)
          \<and> base64url_encode (int (rsa_e (public_key (snd kv)))) = Inr (jwk_e j)
          \<and> jwk_kty j = ''RSA'' \<and> jwk_use j = ''sig'' \<and> jwk_alg j = ''RS256'') jwks (keys s')"
    unfolding same by auto
  from rel have "list_all2 (\<lambda>j kv. jwk_kid j = fst kv) jwks (keys s')"
    by (rule list_all2_mono) simp
  then have kids: "map jwk_kid jwks = map fst ?valid"
    unfolding st by (induction rule: list_all2_induct) simp_all
  have iff: "(fst kv \<in> set (map jwk_kid jwks)) = (?now \<le> expiry (snd kv))"
    if kv: "kv \<in> set (keys s)" for kv
  proof
    assume "fst kv \<in> set (map jwk_kid jwks)"
    then obtain x where x: "x \<in> set (keys s)" "?now \<le> expiry (snd x)" "fst x = fst kv"
      unfolding kids by auto
    with kv assms have "x = kv" by (intro unique_entry [of "keys s"])
    with x show "?now \<le> expiry (snd kv)" by simp
  next
    assume "?now \<le> expiry (snd kv)"
    with kv have "kv \<in> set ?valid" by simp
    then show "fst kv \<in> set (map jwk_kid jwks)" unfolding kids by (simp del: set_filter)
  qed
  have "\<forall>kv \<in> set (keys s'). \<not> expiry (snd kv) < ?now" unfolding st by auto
  with run st kids iff show ?thesis by blast
qed

text \<open>A store with one entry that expired a microsecond ago and one that expires now.\<close>

theorem jwks_endpoint_validity_window_witness:
  "distinct (map fst (keys (example_server [(''old'', example_entry 999), (''new'', example_entry 1000)])))
   \<and> (\<exists>jwks s'. jwks_endpoint (example_env (frozen_clock 1000))
          (example_server [(''old'', example_entry 999), (''new'', example_entry 1000)])
         = Inr (\<lparr>resp_status = 200, resp_body = JsonKeys jwks\<rparr>, s')
       \<and> keys s' = [(''new'', example_entry 1000)]
       \<and> map jwk_kid jwks = [''new''])"
proof -
  let ?s = "example_server [(''old'', example_entry 999), (''new'', example_entry 1000)]"
  have d: "distinct (map fst (keys ?s))" by (simp add: example_server_def)
  from jwks_endpoint_validity_window [OF d, of "example_env (frozen_clock 1000)"]
  obtain jwks s' where r: "jwks_endpoint (example_env (frozen_clock 1000)) ?s
         = Inr (\<lparr>resp_status = 200, resp_body = JsonKeys jwks\<rparr>, s')"
     "keys s' = [(''new'', example_entry 1000)]"
     "map jwk_kid jwks = [''new'']"
    by (auto simp: example_defs)
  show ?thesis
    apply (rule conjI [OF d])
    apply (rule exI [of _ jwks])
    apply (rule exI [of _ s'])
    by (simp add: r)
qed

subsection \<open>Claim C6: the published components decode to the key\<close>

lemma encode_nat_round_trip:
  "\<exists>t. base64url_encode (int m) = Inr t \<and> base64url_decode t = Some (int m)
       \<and> CHR ''='' \<notin> set t \<and> set t \<subseteq> set b64_url_alphabet"
proof -
  let ?bs = "be_bytes ((bit_length (int m) + 7) div 8) m"
  let ?t = "rstrip (CHR ''='') (urlsafe_b64encode ?bs)"
  have "base64url_encode (int m) = Inr ?t" by (rule base64url_encode_nat)
  moreover have "int (from_bytes_big ?bs) = int m"
    using minimal_bytes_props(1) [of "int m"] by simp
  then have "base64url_decode ?t = Some (int m)" by (simp add: base64url_decode_rstrip)
  moreover have "CHR ''='' \<notin> set ?t" by (rule rstrip_urlsafe_b64encode(2))
  moreover have "set ?t \<subseteq> set b64_url_alphabet" by (rule rstrip_urlsafe_b64encode(1))
  ultimately show ?thesis by (intro exI [of _ ?t] conjI)
qed

text \<open>
  C6. For every store with distinct ids the discovery handler answers with one entry per
  key that is still valid, in order, and for each of them decoding the published \<open>n\<close>
  and \<open>e\<close> with the strict base64url decoder and reading the bytes as a big-endian
  integer gives the modulus and the exponent of the stored public key; neither text
  contains a padding character, and both are written in the URL-safe alphabet.
\<close>

theorem published_components_round_trip:
  assumes "distinct (map fst (keys s))"
  shows "\<exists>jwks s'. jwks_endpoint ev s = Inr (\<lparr>resp_status = 200, resp_body = JsonKeys jwks\<rparr>, s')
     \<and> list_all2 (\<lambda>j kv. jwk_kid j = fst kv
            \<and> base64url_decode (jwk_n j) = Some (int (rsa_n (public_key (snd kv))))
            \<and> base64url_decode (jwk_e j) = Some (int (rsa_e (public_key (snd kv))))
            \<and> CHR ''='' \<notin> set (jwk_n j) \<and> CHR ''='' \<notin> set (jwk_e j)
            \<and> set (jwk_n j) \<subseteq> set b64_url_alphabet \<and> set (jwk_e j) \<subseteq> set b64_url_alphabet)
          jwks (filter (\<lambda>kv. clock ev (clock_reads s) \<le> expiry (snd kv)) (keys s))"
proof -
  let ?now = "clock ev (clock_reads s)"
  let ?valid = "filter (\<lambda>kv. ?now \<le> expiry (snd kv)) (keys s)"
  have same: "filter (\<lambda>kv. \<not> expiry (snd kv) < ?now) (keys s) = ?valid"
    by (rule filter_cong) auto
  from jwks_endpoint_run [OF assms, of ev] obtain jwks s' where
    run: "jwks_endpoint ev s = Inr (\<lparr>resp_status = 200, resp_body = JsonKeys jwks\<rparr>, s')"
    and st: "keys s' = ?valid"
    and rel: "list_all2 (\<lambda>j kv. jwk_kid j = fst kv
          \<and> base64url_encode (int (rsa_n (public_key (snd kv)))) = Inr (jwk_n j)
          \<and> base64url_encode (int (rsa_e (public_key (snd kv)))) = Inr (jwk_e j)
          \<and> jwk_kty j = ''RSA'' \<and> jwk_use j = ''sig'' \<and> jwk_alg j = ''RS256'') jwks (keys s')"
    unfolding same by auto
  have step: "jwk_kid j = fst kv
            \<and> base64url_decode (jwk_n j) = Some (int (rsa_n (public_key (snd kv))))
            \<and> base64url_decode (jwk_e j) = Some (int (rsa_e (public_key (snd kv))))
            \<and> CHR ''='' \<notin> set (jwk_n j) \<and> CHR ''='' \<notin> set (jwk_e j)
            \<and> set (jwk_n j) \<subseteq> set b64_url_alphabet \<and> set (jwk_e j) \<subseteq> set b64_url_alphabet"
    if "jwk_kid j = fst kv
          \<and> base64url_encode (int (rsa_n (public_key (snd kv)))) = Inr (jwk_n j)
          \<and> base64url_encode (int (rsa_e (public_key (snd kv)))) = Inr (jwk_e j)
          \<and> jwk_kty j = ''RSA'' \<and> jwk_use j = ''sig'' \<and> jwk_alg j = ''RS256''" for j kv
    using that encode_nat_round_trip [of "rsa_n (public_key (snd kv))"]
      encode_nat_round_trip [of "rsa_e (public_key (snd kv))"]
    by auto
  have "list_all2 (\<lambda>j kv. jwk_kid j = fst kv
            \<and> base64url_decode (jwk_n j) = Some (int (rsa_n (public_key (snd kv))))
            \<and> base64url_decode (jwk_e j) = Some (int (rsa_e (public_key (snd kv))))
            \<and> CHR ''='' \<notin> set (jwk_n j) \<and> CHR ''='' \<notin> set (jwk_e j)
            \<and> set (jwk_n j) \<subseteq> set b64_url_alphabet \<and> set (jwk_e j) \<subseteq> set b64_url_alphabet) jwks ?valid"
    using rel unfolding st by (rule list_all2_mono) (rule step)
  with run show ?thesis by (intro exI [of _ jwks] exI [of _ s'] conjI)
qed

text \<open>The handler on a store with one valid key, evaluated.\<close>

lemma jwks_endpoint_example:
  "jwks_endpoint (example_env (frozen_clock 1000)) (example_server [(''k'', example_entry 1000)])
     = Inr (\<lparr>resp_status = 200,
             resp_body = JsonKeys [\<lparr>jwk_kty = ''RSA'', jwk_use = ''sig'', jwk_kid = ''k'',
                                   jwk_n = ''DKE'', jwk_e = ''AQAB'', jwk_alg = ''RS256''\<rparr>]\<rparr>,
            \<lparr>keys = [(''k'', example_entry 1000)], clock_reads = 1, keys_made = 1\<rparr>)"
  by (simp add: jwks_endpoint_def datetime_now_def example_defs dict_del_def
      encode_3233 encode_65537)

text \<open>The theorem at that store: \<^verbatim>\<open>DKE\<close> decodes to 3233 and \<^verbatim>\<open>AQAB\<close> to 65537.\<close>

theorem published_components_round_trip_witness:
  "distinct (map fst (keys (example_server [(''k'', example_entry 1000)])))
   \<and> jwks_endpoint (example_env (frozen_clock 1000)) (example_server [(''k'', example_entry 1000)])
     = Inr (\<lparr>resp_status = 200,
             resp_body = JsonKeys [\<lparr>jwk_kty = ''RSA'', jwk_use = ''sig'', jwk_kid = ''k'',
                                   jwk_n = ''DKE'', jwk_e = ''AQAB'', jwk_alg = ''RS256''\<rparr>]\<rparr>,
            \<lparr>keys = [(''k'', example_entry 1000)], clock_reads = 1, keys_made = 1\<rparr>)
   \<and> rsa_n (public_key (example_entry 1000)) = 3233
   \<and> rsa_e (public_key (example_entry 1000)) = 65537
   \<and> base64url_decode ''DKE'' = Some 3233
   \<and> base64url_decode ''AQAB'' = Some 65537"
proof -
  let ?s = "example_server [(''k'', example_entry 1000)]"
  let ?ev = "example_env (frozen_clock 1000)"
  have d: "distinct (map fst (keys ?s))" by (simp add: example_server_def)
  from published_components_round_trip [OF d, of ?ev]
  obtain jwks s' where
    run: "jwks_endpoint ?ev ?s = Inr (\<lparr>resp_status = 200, resp_body = JsonKeys jwks\<rparr>, s')"
    and rel: "list_all2 (\<lambda>j kv. jwk_kid j = fst kv
            \<and> base64url_decode (jwk_n j) = Some (int (rsa_n (public_key (snd kv))))
            \<and> base64url_decode (jwk_e j) = Some (int (rsa_e (public_key (snd kv))))
            \<and> CHR ''='' \<notin> set (jwk_n j) \<and> CHR ''='' \<notin> set (jwk_e j)
            \<and> set (jwk_n j) \<subseteq> set b64_url_alphabet \<and> set (jwk_e j) \<subseteq> set b64_url_alphabet)
          jwks (filter (\<lambda>kv. clock ?ev (clock_reads ?s) \<le> expiry (snd kv)) (keys ?s))"
    by auto
  from run have jwks: "jwks = [\<lparr>jwk_kty = ''RSA'', jwk_use = ''sig'', jwk_kid = ''k'',
                                   jwk_n = ''DKE'', jwk_e = ''AQAB'', jwk_alg = ''RS256''\<rparr>]"
    by (simp add: jwks_endpoint_example)
  have pub: "rsa_n (public_key (example_entry 1000)) = 3233"
    "rsa_e (public_key (example_entry 1000)) = 65537"
    by (simp_all add: example_defs)
  from rel have "base64url_decode ''DKE'' = Some 3233" "base64url_decode ''AQAB'' = Some 65537"
    unfolding jwks by (simp_all add: example_defs)
  with d pub show ?thesis by (simp add: jwks_endpoint_example)
qed

subsection \<open>Claim C9: a key that expires exactly now\<close>

text \<open>
  C9, as amended. The purge removes an entry only when \<open>expiry < now\<close>, so an entry
  of a store with distinct ids whose expiry equals the clock reading of the request
  stays in the store and its id is in the returned list.
\<close>

theorem key_expiring_now_is_published:
  assumes "distinct (map fst (keys s))"
    and "(kid, key) \<in> set (keys s)"
    and "expiry key = clock ev (clock_reads s)"
  shows "\<exists>jwks s'. jwks_endpoint ev s = Inr (\<lparr>resp_status = 200, resp_body = JsonKeys jwks\<rparr>, s')
     \<and> kid \<in> set (map jwk_kid jwks) \<and> (kid, key) \<in> set (keys s')"
proof -
  from jwks_endpoint_run [OF assms(1), of ev] obtain jwks s' where
    run: "jwks_endpoint ev s = Inr (\<lparr>resp_status = 200, resp_body = JsonKeys jwks\<rparr>, s')"
    and st: "keys s' = filter (\<lambda>kv. \<not> expiry (snd kv) < clock ev (clock_reads s)) (keys s)"
    and rel: "list_all2 (\<lambda>j kv. jwk_kid j = fst kv
          \<and> base64url_encode (int (rsa_n (public_key (snd kv)))) = Inr (jwk_n j)
          \<and> base64url_encode (int (rsa_e (public_key (snd kv)))) = Inr (jwk_e j)
          \<and> jwk_kty j = ''RSA'' \<and> jwk_use j = ''sig'' \<and> jwk_alg j = ''RS256'') jwks (keys s')"
    by auto
  from rel have "list_all2 (\<lambda>j kv. jwk_kid j = fst kv) jwks (keys s')"
    by (rule list_all2_mono) simp
  then have kids: "map jwk_kid jwks = map fst (keys s')"
    by (induction rule: list_all2_induct) simp_all
  from assms(2,3) have mem: "(kid, key) \<in> set (keys s')" unfolding st by simp
  then have "kid \<in> set (map jwk_kid jwks)" unfolding kids by force
  with run mem show ?thesis by (intro exI [of _ jwks] exI [of _ s'] conjI)
qed

text \<open>The theorem at a store whose only key expires at the reading of the clock.\<close>

theorem key_expiring_now_is_published_witness:
  "distinct (map fst (keys (example_server [(''k'', example_entry 1000)])))
   \<and> (''k'', example_entry 1000) \<in> set (keys (example_server [(''k'', example_entry 1000)]))
   \<and> expiry (example_entry 1000)
       = clock (example_env (frozen_clock 1000))
           (clock_reads (example_server [(''k'', example_entry 1000)]))
   \<and> (\<exists>jwks s'. jwks_endpoint (example_env (frozen_clock 1000))
            (example_server [(''k'', example_entry 1000)])
          = Inr (\<lparr>resp_status = 200, resp_body = JsonKeys jwks\<rparr>, s')
        \<and> ''k'' \<in> set (map jwk_kid jwks))"
proof -
  let ?s = "example_server [(''k'', example_entry 1000)]"
  let ?ev = "example_env (frozen_clock 1000)"
  have d: "distinct (map fst (keys ?s))" by (simp add: example_server_def)
  have m: "(''k'', example_entry 1000) \<in> set (keys ?s)" by (simp add: example_server_def)
  have e: "expiry (example_entry 1000) = clock ?ev (clock_reads ?s)"
    by (simp add: example_defs)
  from key_expiring_now_is_published [OF d m e]
  obtain jwks s' where r: "jwks_endpoint ?ev ?s
      = Inr (\<lparr>resp_status = 200, resp_body = JsonKeys jwks\<rparr>, s')"
    "''k'' \<in> set (map jwk_kid jwks)"
    by auto
  show ?thesis
    apply (intro conjI d m e)
    apply (rule exI [of _ jwks])
    apply (rule exI [of _ s'])
    by (simp only: r simp_thms)
qed

text \<open>
  C9 as stated says that such a key does not appear. Here the only key of the store
  expires at 1000, the clock reads 1000, and the key is listed and kept.
\<close>

theorem key_expiring_now_counterexample:
  "expiry (example_entry 1000)
     = clock (example_env (frozen_clock 1000))
         (clock_reads (example_server [(''k'', example_entry 1000)]))
   \<and> jwks_endpoint (example_env (frozen_clock 1000)) (example_server [(''k'', example_entry 1000)])
     = Inr (\<lparr>resp_status = 200,
             resp_body = JsonKeys [\<lparr>jwk_kty = ''RSA'', jwk_use = ''sig'', jwk_kid = ''k'',
                                   jwk_n = ''DKE'', jwk_e = ''AQAB'', jwk_alg = ''RS256''\<rparr>]\<rparr>,
            \<lparr>keys = [(''k'', example_entry 1000)], clock_reads = 1, keys_made = 1\<rparr>)"
  by (simp add: jwks_endpoint_example) (simp add: example_defs)

subsection \<open>Claim C10: no valid key\<close>

lemma match_get_jwks:
  "match_request url_map False
     \<lparr>req_method = ''GET'', req_path = ''/.well-known/jwks.json'', req_args = args\<rparr>
   = Matched (route ''/.well-known/jwks.json'' [''GET''] Jwks_endpoint)"
  by (simp add: url_map_def route_def)

lemma dispatch_get_jwks:
  "full_dispatch_request ev
     \<lparr>req_method = ''GET'', req_path = ''/.well-known/jwks.json'', req_args = args\<rparr> s
   = jwks_endpoint ev s"
  by (simp add: full_dispatch_request_def match_get_jwks) (simp add: route_def)

text \<open>
  C10. When every entry of the store (with distinct ids) has \<open>expiry < now\<close>, which
  includes the empty store, a GET request to the discovery path is answered with status
  200 and the body \<^verbatim>\<open>{"keys": []}\<close>, and leaves the store empty.
\<close>

theorem discovery_without_valid_keys:
  assumes "distinct (map fst (keys s))"
    and "\<forall>kv \<in> set (keys s). expiry (snd kv) < clock ev (clock_reads s)"
  shows "\<exists>s'. full_dispatch_request ev
           \<lparr>req_method = ''GET'', req_path = ''/.well-known/jwks.json'', req_args = args\<rparr> s
         = Inr (\<lparr>resp_status = 200, resp_body = JsonKeys []\<rparr>, s')
       \<and> keys s' = []"
proof -
  from jwks_endpoint_run [OF assms(1), of ev] obtain jwks s' where
    run: "jwks_endpoint ev s = Inr (\<lparr>resp_status = 200, resp_body = JsonKeys jwks\<rparr>, s')"
    and st: "keys s' = filter (\<lambda>kv. \<not> expiry (snd kv) < clock ev (clock_reads s)) (keys s)"
    and rel: "list_all2 (\<lambda>j kv. jwk_kid j = fst kv
          \<and> base64url_encode (int (rsa_n (public_key (snd kv)))) = Inr (jwk_n j)
          \<and> base64url_encode (int (rsa_e (public_key (snd kv)))) = Inr (jwk_e j)
          \<and> jwk_kty j = ''RSA'' \<and> jwk_use j = ''sig'' \<and> jwk_alg j = ''RS256'') jwks (keys s')"
    by auto
  from assms(2) have empty: "keys s' = []" unfolding st by (simp add: filter_empty_conv)
  with rel have "jwks = []" by simp
  with run empty show ?thesis
    by (intro exI [of _ s']) (simp add: dispatch_get_jwks)
qed

text \<open>The theorem at the empty store and at a store whose only key has expired.\<close>

theorem discovery_without_valid_keys_witness:
  "(\<exists>s'. full_dispatch_request (example_env (frozen_clock 1000))
           \<lparr>req_method = ''GET'', req_path = ''/.well-known/jwks.json'', req_args = []\<rparr>
           (example_server [])
         = Inr (\<lparr>resp_status = 200, resp_body = JsonKeys []\<rparr>, s') \<and> keys s' = [])
   \<and> (\<exists>s'. full_dispatch_request (example_env (frozen_clock 1000))
           \<lparr>req_method = ''GET'', req_path = ''/.well-known/jwks.json'', req_args = []\<rparr>
           (example_server [(''old'', example_entry 999)])
         = Inr (\<lparr>resp_status = 200, resp_body = JsonKeys []\<rparr>, s') \<and> keys s' = [])"
proof -
  let ?ev = "example_env (frozen_clock 1000)"
  let ?s0 = "example_server []"
  let ?s1 = "example_server [(''old'', example_entry 999)]"
  have d0: "distinct (map fst (keys ?s0))" and d1: "distinct (map fst (keys ?s1))"
    by (simp_all add: example_server_def)
  have e0: "\<forall>kv \<in> set (keys ?s0). expiry (snd kv) < clock ?ev (clock_reads ?s0)"
    by (simp add: example_server_def)
  have e1: "\<forall>kv \<in> set (keys ?s1). expiry (snd kv) < clock ?ev (clock_reads ?s1)"
    by (simp add: example_defs)
  show ?thesis
    using discovery_without_valid_keys [OF d0 e0, of "[]"]
      discovery_without_valid_keys [OF d1 e1, of "[]"]
    by (intro conjI)
qed

section \<open>The issuance handler\<close>

subsection \<open>Dictionary assignment and key generation\<close>

lemma map_of_dict_set: "map_of (dict_set d k v) = (map_of d)(k \<mapsto> v)"
  by (induction d k v rule: dict_set.induct) auto

lemma dict_set_new: "k \<notin> set (map fst d) \<Longrightarrow> dict_set d k v = d @ [(k, v)]"
  by (induction d k v rule: dict_set.induct) auto

lemma keys_dict_set:
  "set (map fst (dict_set d k v)) = insert k (set (map fst d))"
  by (induction d k v rule: dict_set.induct) auto

lemma map_fst_dict_set_present:
  "k \<in> set (map fst d) \<Longrightarrow> map fst (dict_set d k v) = map fst d"
  by (induction d k v rule: dict_set.induct) auto

lemma distinct_dict_set:
  "distinct (map fst d) \<Longrightarrow> distinct (map fst (dict_set d k v))"
  by (cases "k \<in> set (map fst d)") (simp_all add: map_fst_dict_set_present dict_set_new)

lemma dict_set_nth:
  "i < length d \<Longrightarrow>
     dict_set d k v ! i
       = (if fst (d ! i) = k \<and> k \<notin> fst ` set (take i d) then (k, v) else d ! i)"
proof (induction d k v arbitrary: i rule: dict_set.induct)
  case (1 k v)
  then show ?case by simp
next
  case (2 k' v' d k v)
  show ?case
  proof (cases i)
    case 0
    then show ?thesis by simp
  next
    case (Suc j)
    with 2 show ?thesis by auto
  qed
qed

text \<open>
  \<^verbatim>\<open>generate_key\<close> returns exactly when the key generation succeeds and the expiry
  times it computes are in the range of \<^verbatim>\<open>datetime\<close>; the one-hour expiry is computed
  also when \<^verbatim>\<open>expired\<close> is set.
\<close>

lemma generate_key_eq:
  assumes "rsa_generate_raises ev (keys_made s) = None"
    and "in_datetime_range (clock ev (clock_reads s) + timedelta_hours 1)"
    and "expired \<longrightarrow> in_datetime_range (clock ev (Suc (clock_reads s)) - timedelta_minutes 5)"
  shows "generate_key ev expired s =
     Inr (uuid4_str ev (keys_made s),
      s\<lparr>keys_made := Suc (keys_made s),
        clock_reads := (if expired then clock_reads s + 2 else clock_reads s + 1),
        keys := dict_set (keys s) (uuid4_str ev (keys_made s))
                 \<lparr>private_key = rsa_generate_private_key ev (keys_made s),
                  public_key = public_numbers_of (rsa_generate_private_key ev (keys_made s)),
                  expiry = (if expired
                            then clock ev (Suc (clock_reads s)) - timedelta_minutes 5
                            else clock ev (clock_reads s) + timedelta_hours 1)\<rparr>\<rparr>)"
  using assms by (simp add: generate_key_def datetime_now_def datetime_add_def Let_def)

lemma generate_key_Inr:
  assumes "generate_key ev expired s = Inr (kid, s')"
  shows "rsa_generate_raises ev (keys_made s) = None"
    and "in_datetime_range (clock ev (clock_reads s) + timedelta_hours 1)"
    and "expired \<longrightarrow> in_datetime_range (clock ev (Suc (clock_reads s)) - timedelta_minutes 5)"
    and "kid = uuid4_str ev (keys_made s)"
    and "s' = s\<lparr>keys_made := Suc (keys_made s),
        clock_reads := (if expired then clock_reads s + 2 else clock_reads s + 1),
        keys := dict_set (keys s) (uuid4_str ev (keys_made s))
                 \<lparr>private_key = rsa_generate_private_key ev (keys_made s),
                  public_key = public_numbers_of (rsa_generate_private_key ev (keys_made s)),
                  expiry = (if expired
                            then clock ev (Suc (clock_reads s)) - timedelta_minutes 5
                            else clock ev (clock_reads s) + timedelta_hours 1)\<rparr>\<rparr>"
  using assms
  by (auto simp: generate_key_def datetime_now_def datetime_add_def Let_def
      split: option.splits if_splits)

lemma generate_key_Inl:
  "generate_key ev expired s = Inl err \<Longrightarrow>
     rsa_generate_raises ev (keys_made s) = Some err
     \<or> err = OverflowError
        \<and> (\<not> in_datetime_range (clock ev (clock_reads s) + timedelta_hours 1)
           \<or> expired \<and> \<not> in_datetime_range (clock ev (Suc (clock_reads s)) - timedelta_minutes 5))"
  by (auto simp: generate_key_def datetime_now_def datetime_add_def Let_def
      split: option.splits if_splits)

text \<open>The search reads the clock and changes nothing else.\<close>

lemma next_expired_state:
  "next_expired ev items s = (r, s') \<Longrightarrow>
     keys s' = keys s \<and> keys_made s' = keys_made s
     \<and> clock_reads s \<le> clock_reads s' \<and> clock_reads s' \<le> clock_reads s + length items"
proof (induction items arbitrary: s)
  case Nil
  then show ?case by simp
next
  case (Cons kv items)
  obtain k v where kv: "kv = (k, v)" by (cases kv)
  show ?case
  proof (cases "expiry v < clock ev (clock_reads s)")
    case True
    with Cons.prems kv show ?thesis by (auto simp: datetime_now_def)
  next
    case False
    with Cons.prems kv
    have "next_expired ev items (s\<lparr>clock_reads := Suc (clock_reads s)\<rparr>) = (r, s')"
      by (simp add: datetime_now_def)
    from Cons.IH [OF this] show ?thesis by simp
  qed
qed

lemma next_expired_Some:
  "next_expired ev items s = (Some k, s') \<Longrightarrow>
     \<exists>v i. i < length items \<and> items ! i = (k, v) \<and> expiry v < clock ev (clock_reads s + i)"
proof (induction items arbitrary: s)
  case Nil
  then show ?case by simp
next
  case (Cons kv items)
  obtain k0 v0 where kv: "kv = (k0, v0)" by (cases kv)
  show ?case
  proof (cases "expiry v0 < clock ev (clock_reads s)")
    case True
    with Cons.prems kv have "k = k0" by (simp add: datetime_now_def)
    with True kv show ?thesis by (intro exI [of _ v0] exI [of _ 0]) simp
  next
    case False
    with Cons.prems kv
    have "next_expired ev items (s\<lparr>clock_reads := Suc (clock_reads s)\<rparr>) = (Some k, s')"
      by (simp add: datetime_now_def)
    from Cons.IH [OF this] obtain v i where
      "i < length items" "items ! i = (k, v)" "expiry v < clock ev (Suc (clock_reads s) + i)"
      by auto
    then show ?thesis by (intro exI [of _ v] exI [of _ "Suc i"]) simp
  qed
qed



lemma jwt_encode_claims:
  "jwt_encode ev [(''sub'', PyStr u), (''iat'', PyDatetime a), (''exp'', PyDatetime b)] key alg
       [(''kid'', kid)]
   = (case jws_sign ev key [(''typ'', ''JWT''), (''alg'', alg), (''kid'', kid)]
             [(''sub'', PyStr u), (''iat'', PyInt (timegm_utc a)), (''exp'', PyInt (timegm_utc b))] of
        Inl msg \<Rightarrow> Inl msg
      | Inr sig \<Rightarrow>
          Inr \<lparr>jwt_header = [(''typ'', ''JWT''), (''alg'', alg), (''kid'', kid)],
               jwt_payload = [(''sub'', PyStr u), (''iat'', PyInt (timegm_utc a)),
                              (''exp'', PyInt (timegm_utc b))],
               jwt_signature = sig\<rparr>)"
  by (simp add: jwt_encode_def jwt_time_claim_def Let_def)

lemma timegm_minus_5_minutes: "timegm_utc (t - timedelta_minutes 5) = timegm_utc t - 300"
proof -
  have "(t + (- 300) * 1000000) div 1000000 = (- 300) + t div (1000000::int)"
    by (rule div_mult_self1) simp
  then show ?thesis by (simp add: timegm_utc_def timedelta_minutes_def)
qed

lemma timegm_plus_5_minutes: "timegm_utc (t + timedelta_minutes 5) = timegm_utc t + 300"
proof -
  have "(t + 300 * 1000000) div 1000000 = 300 + t div (1000000::int)"
    by (rule div_mult_self1) simp
  then show ?thesis by (simp add: timegm_utc_def timedelta_minutes_def)
qed

subsection \<open>The handler in closed form\<close>

text \<open>
  Whatever the search finds, the id that is used names an entry of the store, so the
  subscript \<^verbatim>\<open>keys[kid]\<close> never raises. A run that returns has obtained its key,
  computed its times inside the range of \<^verbatim>\<open>datetime\<close>, and its response and final
  state are determined by the outcome of the signing step.
\<close>

lemma selected_kid_in_store:
  assumes sel: "sel = (if expired then next_expired ev (keys s) s else (None, s))"
    and ks: "(case fst sel of
                None \<Rightarrow> generate_key ev expired (snd sel)
              | Some k \<Rightarrow> if k = [] then generate_key ev expired (snd sel)
                          else Inr (k, snd sel)) = Inr ks"
  shows "\<exists>entry. map_of (keys (snd ks)) (fst ks) = Some entry"
proof (cases "fst sel = None \<or> fst sel = Some []")
  case True
  then have "generate_key ev expired (snd sel) = Inr (fst ks, snd ks)" using ks by auto
  from generate_key_Inr(4,5) [OF this] have "fst ks = uuid4_str ev (keys_made (snd sel))"
    "keys (snd ks) = dict_set (keys (snd sel)) (uuid4_str ev (keys_made (snd sel)))
                 \<lparr>private_key = rsa_generate_private_key ev (keys_made (snd sel)),
                  public_key = public_numbers_of (rsa_generate_private_key ev (keys_made (snd sel))),
                  expiry = (if expired
                            then clock ev (Suc (clock_reads (snd sel))) - timedelta_minutes 5
                            else clock ev (clock_reads (snd sel)) + timedelta_hours 1)\<rparr>"
    by simp_all
  then show ?thesis by (simp add: map_of_dict_set)
next
  case False
  then obtain k where k: "fst sel = Some k" "k \<noteq> []" by auto
  with sel have ex: "expired" by (auto split: if_splits)
  with sel k have ne: "next_expired ev (keys s) s = (Some k, snd sel)"
    by (metis prod.collapse)
  from next_expired_Some [OF ne] obtain v i where "i < length (keys s)" "keys s ! i = (k, v)"
    by auto
  then have "(k, v) \<in> set (keys s)" by (metis nth_mem)
  then have "k \<in> fst ` set (keys s)" by force
  then have "map_of (keys s) k \<noteq> None" by (simp add: map_of_eq_None_iff)
  moreover from next_expired_state [OF ne] have "keys (snd sel) = keys s" by simp
  moreover from k ks have "ks = (k, snd sel)" by simp
  ultimately show ?thesis by auto
qed

lemma auth_endpoint_no_key:
  assumes sel: "sel = (if ''expired'' \<in> set (map fst args)
                       then next_expired ev (keys s) s else (None, s))"
    and ks: "(case fst sel of
                None \<Rightarrow> generate_key ev (''expired'' \<in> set (map fst args)) (snd sel)
              | Some k \<Rightarrow>
                  if k = [] then generate_key ev (''expired'' \<in> set (map fst args)) (snd sel)
                  else Inr (k, snd sel)) = Inl err"
  shows "auth_endpoint ev args s = Inl err"
  unfolding auth_endpoint_def Let_def sel [symmetric]
  by (simp only: case_prod_unfold ks sum.case)

lemma auth_endpoint_unfold:
  assumes sel: "sel = (if ''expired'' \<in> set (map fst args)
                       then next_expired ev (keys s) s else (None, s))"
    and ks: "(case fst sel of
                None \<Rightarrow> generate_key ev (''expired'' \<in> set (map fst args)) (snd sel)
              | Some k \<Rightarrow>
                  if k = [] then generate_key ev (''expired'' \<in> set (map fst args)) (snd sel)
                  else Inr (k, snd sel)) = Inr ks"
    and ent: "map_of (keys (snd ks)) (fst ks) = Some entry"
    and hdr: "hdr = [(''typ'', ''JWT''), (''alg'', ''RS256''), (''kid'', fst ks)]"
    and claims: "claims =
       [(''sub'', PyStr ''example_user''),
        (''iat'', PyInt (timegm_utc (clock ev (clock_reads (snd ks)
                    + (if ''expired'' \<in> set (map fst args) then 2 else 1))))),
        (''exp'', PyInt (if ''expired'' \<in> set (map fst args)
                         then timegm_utc (clock ev (clock_reads (snd ks) + 1)) - 300
                         else timegm_utc (clock ev (clock_reads (snd ks))) + 300))]"
  shows "auth_endpoint ev args s =
     (if in_datetime_range (clock ev (clock_reads (snd ks)) + timedelta_minutes 5)
         \<and> (''expired'' \<in> set (map fst args) \<longrightarrow>
              in_datetime_range (clock ev (clock_reads (snd ks) + 1) - timedelta_minutes 5))
      then Inr (case jws_sign ev (private_bytes (private_key entry)) hdr claims of
                Inl msg \<Rightarrow> \<lparr>resp_status = 500,
                              resp_body = JsonError (''JWT encoding error: '' @ msg)\<rparr>
              | Inr sig \<Rightarrow> \<lparr>resp_status = 201,
                              resp_body = JsonToken \<lparr>jwt_header = hdr, jwt_payload = claims,
                                                     jwt_signature = sig\<rparr>\<rparr>,
              (snd ks)\<lparr>clock_reads := clock_reads (snd ks)
                          + (if ''expired'' \<in> set (map fst args) then 3 else 2)\<rparr>)
      else Inl OverflowError)"
proof -
  have unfold: "auth_endpoint ev args s =
     (case dict_get (keys (snd ks)) (fst ks) of
        Inl err \<Rightarrow> Inl err
      | Inr entry \<Rightarrow>
          (let private_pem = private_bytes (private_key entry);
               (now1, s3) = datetime_now ev (snd ks)
           in case datetime_add now1 (timedelta_minutes 5) of
                Inl err \<Rightarrow> Inl err
              | Inr exp1 \<Rightarrow>
                  (case (if ''expired'' \<in> set (map fst args)
                         then (let (now2, s') = datetime_now ev s3
                               in case datetime_add now2 (- timedelta_minutes 5) of
                                    Inl err \<Rightarrow> Inl err
                                  | Inr exp2 \<Rightarrow> Inr (exp2, s'))
                         else Inr (exp1, s3)) of
                     Inl err \<Rightarrow> Inl err
                   | Inr (exp_time, s4) \<Rightarrow>
                       (let (now3, s5) = datetime_now ev s4;
                            payload = [(''sub'', PyStr ''example_user''),
                                       (''iat'', PyDatetime now3),
                                       (''exp'', PyDatetime exp_time)]
                        in case jwt_encode ev payload private_pem ''RS256''
                                  [(''kid'', fst ks)] of
                             Inl msg \<Rightarrow>
                               Inr (\<lparr>resp_status = 500,
                                     resp_body = JsonError
                                       (''JWT encoding error: '' @ msg)\<rparr>, s5)
                           | Inr token \<Rightarrow>
                               Inr (\<lparr>resp_status = 201,
                                     resp_body = JsonToken token\<rparr>, s5)))))"
    unfolding auth_endpoint_def Let_def sel [symmetric]
    by (simp only: case_prod_unfold ks sum.case)
  show ?thesis
    unfolding unfold
    by (simp add: dict_get_def ent Let_def datetime_now_def datetime_add_def jwt_encode_claims
        timegm_minus_5_minutes timegm_plus_5_minutes hdr claims split: sum.splits)
qed

lemma auth_endpoint_run:
  assumes run: "auth_endpoint ev args s = Inr (resp, s')"
    and sel: "sel = (if ''expired'' \<in> set (map fst args)
                       then next_expired ev (keys s) s else (None, s))"
  shows "\<exists>ks entry hdr claims.
       (case fst sel of
          None \<Rightarrow> generate_key ev (''expired'' \<in> set (map fst args)) (snd sel)
        | Some k \<Rightarrow>
            if k = [] then generate_key ev (''expired'' \<in> set (map fst args)) (snd sel)
            else Inr (k, snd sel)) = Inr ks
     \<and> map_of (keys (snd ks)) (fst ks) = Some entry
     \<and> hdr = [(''typ'', ''JWT''), (''alg'', ''RS256''), (''kid'', fst ks)]
     \<and> claims =
         [(''sub'', PyStr ''example_user''),
          (''iat'', PyInt (timegm_utc (clock ev (clock_reads (snd ks)
                      + (if ''expired'' \<in> set (map fst args) then 2 else 1))))),
          (''exp'', PyInt (if ''expired'' \<in> set (map fst args)
                           then timegm_utc (clock ev (clock_reads (snd ks) + 1)) - 300
                           else timegm_utc (clock ev (clock_reads (snd ks))) + 300))]
     \<and> auth_endpoint ev args s =
         Inr (case jws_sign ev (private_bytes (private_key entry)) hdr claims of
                Inl msg \<Rightarrow> \<lparr>resp_status = 500,
                              resp_body = JsonError (''JWT encoding error: '' @ msg)\<rparr>
              | Inr sig \<Rightarrow> \<lparr>resp_status = 201,
                              resp_body = JsonToken \<lparr>jwt_header = hdr, jwt_payload = claims,
                                                     jwt_signature = sig\<rparr>\<rparr>,
              (snd ks)\<lparr>clock_reads := clock_reads (snd ks)
                          + (if ''expired'' \<in> set (map fst args) then 3 else 2)\<rparr>)"
proof (cases "case fst sel of
          None \<Rightarrow> generate_key ev (''expired'' \<in> set (map fst args)) (snd sel)
        | Some k \<Rightarrow>
            if k = [] then generate_key ev (''expired'' \<in> set (map fst args)) (snd sel)
            else Inr (k, snd sel)")
  case (Inl err)
  from auth_endpoint_no_key [OF sel Inl] run show ?thesis by simp
next
  case (Inr ks)
  from selected_kid_in_store [OF sel Inr] obtain entry where
    ent: "map_of (keys (snd ks)) (fst ks) = Some entry" by auto
  note u = auth_endpoint_unfold [OF sel Inr ent refl refl]
  have ok: "in_datetime_range (clock ev (clock_reads (snd ks)) + timedelta_minutes 5)
         \<and> (''expired'' \<in> set (map fst args) \<longrightarrow>
              in_datetime_range (clock ev (clock_reads (snd ks) + 1) - timedelta_minutes 5))"
  proof (rule ccontr)
    assume "\<not> ?thesis"
    then have "auth_endpoint ev args s = Inl OverflowError" by (simp only: u if_False)
    with run show False by simp
  qed
  show ?thesis
    apply (intro exI conjI)
        apply (rule Inr)
       apply (rule ent)
      apply (rule refl)
     apply (rule refl)
    apply (subst u)
    apply (rule if_P [OF ok])
    done
qed

text \<open>
  Every response the handler returns has status 201 or 500, and it returns one whenever
  the key generation does not fail and the clock stays at least five minutes after
  \<^verbatim>\<open>datetime.min\<close> and at least one hour before \<^verbatim>\<open>datetime.max\<close>.
\<close>

lemma auth_endpoint_status:
  assumes "auth_endpoint ev args s = Inr (resp, s')"
  shows "resp_status resp = 201 \<or> resp_status resp = 500"
proof -
  define sel where "sel = (if ''expired'' \<in> set (map fst args)
                       then next_expired ev (keys s) s else (None, s))"
  from auth_endpoint_run [OF assms sel_def] obtain ks entry hdr claims where
    ks: "(case fst sel of
          None \<Rightarrow> generate_key ev (''expired'' \<in> set (map fst args)) (snd sel)
        | Some k \<Rightarrow>
            if k = [] then generate_key ev (''expired'' \<in> set (map fst args)) (snd sel)
            else Inr (k, snd sel)) = Inr ks"
    and ent: "map_of (keys (snd ks)) (fst ks) = Some entry"
    and hdr_def: "hdr = [(''typ'', ''JWT''), (''alg'', ''RS256''), (''kid'', fst ks)]"
    and claims_def: "claims =
       [(''sub'', PyStr ''example_user''),
        (''iat'', PyInt (timegm_utc (clock ev (clock_reads (snd ks)
                    + (if ''expired'' \<in> set (map fst args) then 2 else 1))))),
        (''exp'', PyInt (if ''expired'' \<in> set (map fst args)
                         then timegm_utc (clock ev (clock_reads (snd ks) + 1)) - 300
                         else timegm_utc (clock ev (clock_reads (snd ks))) + 300))]"
    and eq: "auth_endpoint ev args s =
         Inr (case jws_sign ev (private_bytes (private_key entry)) hdr claims of
                Inl msg \<Rightarrow> \<lparr>resp_status = 500,
                              resp_body = JsonError (''JWT encoding error: '' @ msg)\<rparr>
              | Inr sig \<Rightarrow> \<lparr>resp_status = 201,
                              resp_body = JsonToken \<lparr>jwt_header = hdr, jwt_payload = claims,
                                                     jwt_signature = sig\<rparr>\<rparr>,
              (snd ks)\<lparr>clock_reads := clock_reads (snd ks)
                          + (if ''expired'' \<in> set (map fst args) then 3 else 2)\<rparr>)"
    by (elim exE conjE) (rule that)
  from assms eq show ?thesis by (auto split: sum.splits)
qed

lemma clock_in_range:
  assumes "datetime_min + timedelta_minutes 5 \<le> t" "t + timedelta_hours 1 \<le> datetime_max"
  shows "in_datetime_range (t + timedelta_hours 1)" "in_datetime_range (t + timedelta_minutes 5)"
    "in_datetime_range (t - timedelta_minutes 5)"
  using assms
  by (simp_all add: in_datetime_range_def timedelta_minutes_def timedelta_hours_def)

lemma auth_endpoint_returns:
  assumes gen: "\<forall>j. rsa_generate_raises ev j = None"
    and rng: "\<forall>i. datetime_min + timedelta_minutes 5 \<le> clock ev i
                 \<and> clock ev i + timedelta_hours 1 \<le> datetime_max"
  shows "\<exists>resp s'. auth_endpoint ev args s = Inr (resp, s')
           \<and> (resp_status resp = 201 \<or> resp_status resp = 500)"
proof -
  define sel where "sel = (if ''expired'' \<in> set (map fst args)
                       then next_expired ev (keys s) s else (None, s))"
  have g: "\<exists>ks. generate_key ev (''expired'' \<in> set (map fst args)) (snd sel) = Inr ks"
    using generate_key_eq [of ev "snd sel" "''expired'' \<in> set (map fst args)"] gen rng
      clock_in_range by simp
  have "\<exists>ks. (case fst sel of
          None \<Rightarrow> generate_key ev (''expired'' \<in> set (map fst args)) (snd sel)
        | Some k \<Rightarrow>
            if k = [] then generate_key ev (''expired'' \<in> set (map fst args)) (snd sel)
            else Inr (k, snd sel)) = Inr ks"
    using g by (cases "fst sel") auto
  then obtain ks where ks: "(case fst sel of
          None \<Rightarrow> generate_key ev (''expired'' \<in> set (map fst args)) (snd sel)
        | Some k \<Rightarrow>
            if k = [] then generate_key ev (''expired'' \<in> set (map fst args)) (snd sel)
            else Inr (k, snd sel)) = Inr ks" ..
  from selected_kid_in_store [OF sel_def ks] obtain entry where
    ent: "map_of (keys (snd ks)) (fst ks) = Some entry" by auto
  have ok: "in_datetime_range (clock ev (clock_reads (snd ks)) + timedelta_minutes 5)"
    "in_datetime_range (clock ev (clock_reads (snd ks) + 1) - timedelta_minutes 5)"
    using rng clock_in_range by simp_all
  from auth_endpoint_unfold [OF sel_def ks ent refl refl] ok
  obtain resp s' where r: "auth_endpoint ev args s = Inr (resp, s')" by simp
  from auth_endpoint_status [OF r] r show ?thesis by blast
qed

subsection \<open>The store stays a dictionary\<close>

lemma generate_key_keeps_distinct:
  "generate_key ev expired s = Inr (kid, s') \<Longrightarrow> distinct (map fst (keys s)) \<Longrightarrow>
     distinct (map fst (keys s'))"
  using generate_key_Inr(5) [of ev expired s kid s'] by (simp add: distinct_dict_set)

lemma generate_key_keeps_nonempty:
  assumes "generate_key ev expired s = Inr (kid, s')"
    and "[] \<notin> set (map fst (keys s))" "uuid4_str ev (keys_made s) \<noteq> []"
  shows "[] \<notin> set (map fst (keys s'))"
proof -
  have "set (map fst (keys s')) = insert (uuid4_str ev (keys_made s)) (set (map fst (keys s)))"
    using keys_dict_set [of "keys s" "uuid4_str ev (keys_made s)"]
      generate_key_Inr(5) [OF assms(1)]
    by simp
  with assms show ?thesis by auto
qed

text \<open>
  The dictionary starts empty and only the handlers change it, so its ids stay distinct;
  they also stay non-empty as long as the UUID generator returns non-empty strings.
\<close>

lemma jwks_endpoint_keeps_store_ok:
  assumes "distinct (map fst (keys s))" "jwks_endpoint ev s = Inr (resp, s')"
  shows "distinct (map fst (keys s'))" and "set (keys s') \<subseteq> set (keys s)"
proof -
  from jwks_endpoint_run [OF assms(1), of ev] assms(2)
  have st: "keys s' = filter (\<lambda>kv. \<not> expiry (snd kv) < clock ev (clock_reads s)) (keys s)"
    by auto
  show "distinct (map fst (keys s'))" unfolding st using assms(1) by (rule distinct_map_filter)
  show "set (keys s') \<subseteq> set (keys s)" unfolding st by auto
qed

lemma auth_endpoint_keeps_store_ok:
  assumes "auth_endpoint ev args s = Inr (resp, s')"
  shows "distinct (map fst (keys s)) \<Longrightarrow> distinct (map fst (keys s'))"
    and "[] \<notin> set (map fst (keys s)) \<Longrightarrow> \<forall>j. uuid4_str ev j \<noteq> [] \<Longrightarrow>
           [] \<notin> set (map fst (keys s'))"
proof -
  define sel where "sel = (if ''expired'' \<in> set (map fst args)
                       then next_expired ev (keys s) s else (None, s))"
  from auth_endpoint_run [OF assms sel_def] assms obtain ks where
    ks: "(case fst sel of
          None \<Rightarrow> generate_key ev (''expired'' \<in> set (map fst args)) (snd sel)
        | Some k \<Rightarrow>
            if k = [] then generate_key ev (''expired'' \<in> set (map fst args)) (snd sel)
            else Inr (k, snd sel)) = Inr ks"
    and st: "keys s' = keys (snd ks)" by auto
  have sel_keys: "keys (snd sel) = keys s"
  proof (cases "''expired'' \<in> set (map fst args)")
    case True
    then have "next_expired ev (keys s) s = (fst sel, snd sel)" by (simp add: sel_def)
    from next_expired_state [OF this] show ?thesis by simp
  next
    case False
    then show ?thesis by (simp add: sel_def)
  qed
  have cases: "keys (snd ks) = keys s
      \<or> generate_key ev (''expired'' \<in> set (map fst args)) (snd sel) = Inr (fst ks, snd ks)"
    using sel_keys ks by (auto split: option.splits if_splits)
  show "distinct (map fst (keys s'))" if "distinct (map fst (keys s))"
    using cases that
      generate_key_keeps_distinct [of ev "''expired'' \<in> set (map fst args)" "snd sel"
        "fst ks" "snd ks"] sel_keys
    unfolding st by auto
  show "[] \<notin> set (map fst (keys s'))"
    if "[] \<notin> set (map fst (keys s))" "\<forall>j. uuid4_str ev j \<noteq> []"
  proof -
    from that sel_keys have "[] \<notin> set (map fst (keys (snd sel)))"
      "uuid4_str ev (keys_made (snd sel)) \<noteq> []" by simp_all
    from generate_key_keeps_nonempty [OF _ this, of "''expired'' \<in> set (map fst args)"
        "fst ks" "snd ks"]
    show ?thesis using cases that(1) unfolding st by metis
  qed
qed

subsection \<open>Example runs\<close>

text \<open>
  Four runs, evaluated: a plain request on an empty store while the clock passes a whole
  second; a request with \<^verbatim>\<open>?expired\<close> on a store that holds an expired key; the
  same request on a store whose only key is still valid; and a plain request while the
  clock stands still.
\<close>

lemmas auth_eval =
  auth_endpoint_def generate_key_def datetime_now_def datetime_add_def in_datetime_range_def
  datetime_min_def datetime_max_def dict_get_def jwt_encode_claims example_defs
  private_bytes_def timegm_utc_def timedelta_minutes_def timedelta_hours_def Let_def

lemma auth_endpoint_example_fresh:
  "auth_endpoint (example_env (ticking_clock 999998 1)) [] (example_server [])
   = Inr (\<lparr>resp_status = 201,
           resp_body = JsonToken
             \<lparr>jwt_header = [(''typ'', ''JWT''), (''alg'', ''RS256''), (''kid'', ''u'')],
              jwt_payload = [(''sub'', PyStr ''example_user''), (''iat'', PyInt 1),
                             (''exp'', PyInt 300)],
              jwt_signature = ''signature''\<rparr>\<rparr>,
          \<lparr>keys = [(''u'', example_entry 3600999998)], clock_reads = 3, keys_made = 1\<rparr>)"
  by (simp add: auth_eval)

lemma auth_endpoint_example_expired:
  "auth_endpoint (example_env (ticking_clock 1000 1)) [(''expired'', '''')]
     (example_server [(''old'', example_entry 999)])
   = Inr (\<lparr>resp_status = 201,
           resp_body = JsonToken
             \<lparr>jwt_header = [(''typ'', ''JWT''), (''alg'', ''RS256''), (''kid'', ''old'')],
              jwt_payload = [(''sub'', PyStr ''example_user''), (''iat'', PyInt 0),
                             (''exp'', PyInt (- 300))],
              jwt_signature = ''signature''\<rparr>\<rparr>,
          \<lparr>keys = [(''old'', example_entry 999)], clock_reads = 4, keys_made = 1\<rparr>)"
  by (simp add: auth_eval)


lemma auth_endpoint_example_frozen:
  "auth_endpoint (example_env (frozen_clock 5000000)) [] (example_server [])
   = Inr (\<lparr>resp_status = 201,
           resp_body = JsonToken
             \<lparr>jwt_header = [(''typ'', ''JWT''), (''alg'', ''RS256''), (''kid'', ''u'')],
              jwt_payload = [(''sub'', PyStr ''example_user''), (''iat'', PyInt 5),
                             (''exp'', PyInt 305)],
              jwt_signature = ''signature''\<rparr>\<rparr>,
          \<lparr>keys = [(''u'', example_entry 3605000000)], clock_reads = 3, keys_made = 1\<rparr>)"
  by (simp add: auth_eval)

subsection \<open>Claim C7: the structure of an issued token\<close>

text \<open>
  C7. Every token returned by the issuance handler comes with status 201; its payload
  has exactly the claims \<^verbatim>\<open>sub\<close>, \<^verbatim>\<open>iat\<close> and \<^verbatim>\<open>exp\<close>, with
  \<^verbatim>\<open>sub = "example_user"\<close> and whole seconds for the two times; its header names
  RS256 and, under \<^verbatim>\<open>kid\<close>, the id of an entry of the store as the handler leaves it,
  and the signature is the one made with the private key of that entry.
\<close>

theorem issued_token_structure:
  assumes r: "auth_endpoint ev args s = Inr (resp, s')"
    and b: "resp_body resp = JsonToken tok"
  shows "resp_status resp = 201
       \<and> map fst (jwt_payload tok) = [''sub'', ''iat'', ''exp'']
       \<and> map_of (jwt_payload tok) ''sub'' = Some (PyStr ''example_user'')
       \<and> (\<exists>iat exp. map_of (jwt_payload tok) ''iat'' = Some (PyInt iat)
                    \<and> map_of (jwt_payload tok) ''exp'' = Some (PyInt exp))
       \<and> map_of (jwt_header tok) ''alg'' = Some ''RS256''
       \<and> (\<exists>kid entry. map_of (jwt_header tok) ''kid'' = Some kid
              \<and> map_of (keys s') kid = Some entry
              \<and> jws_sign ev (private_bytes (private_key entry)) (jwt_header tok) (jwt_payload tok)
                  = Inr (jwt_signature tok))"
proof -
  define sel where "sel = (if ''expired'' \<in> set (map fst args)
                       then next_expired ev (keys s) s else (None, s))"
  from auth_endpoint_run [OF r sel_def] obtain ks entry hdr claims where
    ks: "(case fst sel of
          None \<Rightarrow> generate_key ev (''expired'' \<in> set (map fst args)) (snd sel)
        | Some k \<Rightarrow>
            if k = [] then generate_key ev (''expired'' \<in> set (map fst args)) (snd sel)
            else Inr (k, snd sel)) = Inr ks"
    and ent: "map_of (keys (snd ks)) (fst ks) = Some entry"
    and hdr_def: "hdr = [(''typ'', ''JWT''), (''alg'', ''RS256''), (''kid'', fst ks)]"
    and claims_def: "claims =
       [(''sub'', PyStr ''example_user''),
        (''iat'', PyInt (timegm_utc (clock ev (clock_reads (snd ks)
                    + (if ''expired'' \<in> set (map fst args) then 2 else 1))))),
        (''exp'', PyInt (if ''expired'' \<in> set (map fst args)
                         then timegm_utc (clock ev (clock_reads (snd ks) + 1)) - 300
                         else timegm_utc (clock ev (clock_reads (snd ks))) + 300))]"
    and run: "auth_endpoint ev args s =
         Inr (case jws_sign ev (private_bytes (private_key entry)) hdr claims of
                Inl msg \<Rightarrow> \<lparr>resp_status = 500,
                              resp_body = JsonError (''JWT encoding error: '' @ msg)\<rparr>
              | Inr sig \<Rightarrow> \<lparr>resp_status = 201,
                              resp_body = JsonToken \<lparr>jwt_header = hdr, jwt_payload = claims,
                                                     jwt_signature = sig\<rparr>\<rparr>,
              (snd ks)\<lparr>clock_reads := clock_reads (snd ks)
                          + (if ''expired'' \<in> set (map fst args) then 3 else 2)\<rparr>)"
    by (elim exE conjE) (rule that)
  show ?thesis
  proof (cases "jws_sign ev (private_bytes (private_key entry)) hdr claims")
    case (Inl msg)
    with r run have "resp = \<lparr>resp_status = 500,
        resp_body = JsonError (''JWT encoding error: '' @ msg)\<rparr>" by simp
    with b have False by simp
    then show ?thesis ..
  next
    case (Inr sig)
    with r run have resp: "resp = \<lparr>resp_status = 201,
        resp_body = JsonToken \<lparr>jwt_header = hdr, jwt_payload = claims, jwt_signature = sig\<rparr>\<rparr>"
      and s': "keys s' = keys (snd ks)" by auto
    with b have tok: "tok = \<lparr>jwt_header = hdr, jwt_payload = claims, jwt_signature = sig\<rparr>"
      by simp
    have "map_of (jwt_header tok) ''kid'' = Some (fst ks)
              \<and> map_of (keys s') (fst ks) = Some entry
              \<and> jws_sign ev (private_bytes (private_key entry)) (jwt_header tok) (jwt_payload tok)
                  = Inr (jwt_signature tok)"
      using Inr ent by (simp add: tok s' hdr_def)
    then have "\<exists>kid entry. map_of (jwt_header tok) ''kid'' = Some kid
              \<and> map_of (keys s') kid = Some entry
              \<and> jws_sign ev (private_bytes (private_key entry)) (jwt_header tok) (jwt_payload tok)
                  = Inr (jwt_signature tok)"
      by (intro exI)
    moreover have "resp_status resp = 201" by (simp add: resp)
    moreover have "map fst (jwt_payload tok) = [''sub'', ''iat'', ''exp'']"
      "map_of (jwt_payload tok) ''sub'' = Some (PyStr ''example_user'')"
      "\<exists>iat exp. map_of (jwt_payload tok) ''iat'' = Some (PyInt iat)
                    \<and> map_of (jwt_payload tok) ''exp'' = Some (PyInt exp)"
      "map_of (jwt_header tok) ''alg'' = Some ''RS256''"
      by (simp_all add: tok claims_def hdr_def)
    ultimately show ?thesis by (intro conjI)
  qed
qed

text \<open>The theorem at the plain request on the empty store.\<close>

theorem issued_token_structure_witness:
  "auth_endpoint (example_env (ticking_clock 999998 1)) [] (example_server [])
   = Inr (\<lparr>resp_status = 201,
           resp_body = JsonToken
             \<lparr>jwt_header = [(''typ'', ''JWT''), (''alg'', ''RS256''), (''kid'', ''u'')],
              jwt_payload = [(''sub'', PyStr ''example_user''), (''iat'', PyInt 1),
                             (''exp'', PyInt 300)],
              jwt_signature = ''signature''\<rparr>\<rparr>,
          \<lparr>keys = [(''u'', example_entry 3600999998)], clock_reads = 3, keys_made = 1\<rparr>)
   \<and> (\<exists>kid entry.
         map_of [(''typ'', ''JWT''), (''alg'', ''RS256''), (''kid'', ''u'')] ''kid'' = Some kid
       \<and> map_of [(''u'', example_entry 3600999998)] kid = Some entry)"
proof -
  let ?ev = "example_env (ticking_clock 999998 1)"
  let ?tok = "\<lparr>jwt_header = [(''typ'', ''JWT''), (''alg'', ''RS256''), (''kid'', ''u'')],
              jwt_payload = [(''sub'', PyStr ''example_user''), (''iat'', PyInt 1),
                             (''exp'', PyInt 300)],
              jwt_signature = ''signature''\<rparr>"
  let ?resp = "\<lparr>resp_status = 201, resp_body = JsonToken ?tok\<rparr>"
  let ?s' = "\<lparr>keys = [(''u'', example_entry 3600999998)], clock_reads = 3, keys_made = 1\<rparr>"
  have run: "auth_endpoint ?ev [] (example_server []) = Inr (?resp, ?s')"
    by (rule auth_endpoint_example_fresh)
  have body: "resp_body ?resp = JsonToken ?tok" by simp
  from issued_token_structure [OF run body]
  obtain kid entry where "map_of (jwt_header ?tok) ''kid'' = Some kid"
    "map_of (keys ?s') kid = Some entry"
    by auto
  then have "\<exists>kid entry.
         map_of [(''typ'', ''JWT''), (''alg'', ''RS256''), (''kid'', ''u'')] ''kid'' = Some kid
       \<and> map_of [(''u'', example_entry 3600999998)] kid = Some entry"
    by (intro exI [of _ kid] exI [of _ entry]) simp
  with run show ?thesis by (intro conjI)
qed

subsection \<open>Claim C4: the expiry of an issued token\<close>

lemma timegm_utc_mono: "a \<le> b \<Longrightarrow> timegm_utc a \<le> timegm_utc b"
  by (simp add: timegm_utc_def zdiv_mono1)

text \<open>
  C4, as amended. The handler reads the clock again for every time it needs: \<^verbatim>\<open>iat\<close>
  is the whole second of the last reading of the request, and \<^verbatim>\<open>exp\<close> comes from the
  reading before it. With the expired flag, \<^verbatim>\<open>exp\<close> is that second minus 300, hence
  strictly less than \<^verbatim>\<open>iat\<close> when the clock did not go back between the two
  readings. Without it, \<^verbatim>\<open>exp\<close> is that second plus 300: \<^verbatim>\<open>exp - iat\<close> is 300
  exactly when the two readings fall in the same whole second, it is at most 300 when the
  clock did not go back, and \<^verbatim>\<open>exp\<close> is greater than \<^verbatim>\<open>iat\<close> when fewer than 300
  second boundaries lie between the readings.
\<close>

theorem token_expiry_relation:
  assumes run: "auth_endpoint ev args s = Inr (resp, s')"
    and tok: "resp_body resp = JsonToken tok"
  shows "\<exists>iat exp.
         map_of (jwt_payload tok) ''iat'' = Some (PyInt iat)
       \<and> map_of (jwt_payload tok) ''exp'' = Some (PyInt exp)
       \<and> iat = timegm_utc (clock ev (clock_reads s' - 1))
       \<and> (if ''expired'' \<in> set (map fst args)
          then exp = timegm_utc (clock ev (clock_reads s' - 2)) - 300
             \<and> (clock ev (clock_reads s' - 2) \<le> clock ev (clock_reads s' - 1) \<longrightarrow> exp < iat)
          else exp = timegm_utc (clock ev (clock_reads s' - 2)) + 300
             \<and> (exp - iat = 300) =
                 (timegm_utc (clock ev (clock_reads s' - 2))
                    = timegm_utc (clock ev (clock_reads s' - 1)))
             \<and> (clock ev (clock_reads s' - 2) \<le> clock ev (clock_reads s' - 1)
                  \<longrightarrow> exp - iat \<le> 300)
             \<and> (timegm_utc (clock ev (clock_reads s' - 1))
                   - timegm_utc (clock ev (clock_reads s' - 2)) < 300 \<longrightarrow> iat < exp))"
proof -
  define sel where "sel = (if ''expired'' \<in> set (map fst args)
                       then next_expired ev (keys s) s else (None, s))"
  from auth_endpoint_run [OF run sel_def] obtain ks entry hdr claims where
    ks: "(case fst sel of
          None \<Rightarrow> generate_key ev (''expired'' \<in> set (map fst args)) (snd sel)
        | Some k \<Rightarrow>
            if k = [] then generate_key ev (''expired'' \<in> set (map fst args)) (snd sel)
            else Inr (k, snd sel)) = Inr ks"
    and ent: "map_of (keys (snd ks)) (fst ks) = Some entry"
    and hdr_def: "hdr = [(''typ'', ''JWT''), (''alg'', ''RS256''), (''kid'', fst ks)]"
    and claims_def: "claims =
       [(''sub'', PyStr ''example_user''),
        (''iat'', PyInt (timegm_utc (clock ev (clock_reads (snd ks)
                    + (if ''expired'' \<in> set (map fst args) then 2 else 1))))),
        (''exp'', PyInt (if ''expired'' \<in> set (map fst args)
                         then timegm_utc (clock ev (clock_reads (snd ks) + 1)) - 300
                         else timegm_utc (clock ev (clock_reads (snd ks))) + 300))]"
    and eq: "auth_endpoint ev args s =
         Inr (case jws_sign ev (private_bytes (private_key entry)) hdr claims of
                Inl msg \<Rightarrow> \<lparr>resp_status = 500,
                              resp_body = JsonError (''JWT encoding error: '' @ msg)\<rparr>
              | Inr sig \<Rightarrow> \<lparr>resp_status = 201,
                              resp_body = JsonToken \<lparr>jwt_header = hdr, jwt_payload = claims,
                                                     jwt_signature = sig\<rparr>\<rparr>,
              (snd ks)\<lparr>clock_reads := clock_reads (snd ks)
                          + (if ''expired'' \<in> set (map fst args) then 3 else 2)\<rparr>)"
    by (elim exE conjE) (rule that)
  define n where "n = clock_reads (snd ks)"
  from run eq have "s' = (snd ks)\<lparr>clock_reads := clock_reads (snd ks)
                          + (if ''expired'' \<in> set (map fst args) then 3 else 2)\<rparr>"
    by simp
  then have reads: "clock_reads s' = n + (if ''expired'' \<in> set (map fst args) then 3 else 2)"
    by (simp add: n_def)
  have pl: "jwt_payload tok = claims"
  proof (cases "jws_sign ev (private_bytes (private_key entry)) hdr claims")
    case (Inl msg)
    with run eq have "resp = \<lparr>resp_status = 500,
        resp_body = JsonError (''JWT encoding error: '' @ msg)\<rparr>" by simp
    with tok show ?thesis by simp
  next
    case (Inr sig)
    with run eq have "resp = \<lparr>resp_status = 201,
        resp_body = JsonToken \<lparr>jwt_header = hdr, jwt_payload = claims, jwt_signature = sig\<rparr>\<rparr>"
      by simp
    with tok show ?thesis by auto
  qed
  show ?thesis
  proof (cases "''expired'' \<in> set (map fst args)")
    case True
    let ?iat = "timegm_utc (clock ev (n + 2))"
    let ?exp = "timegm_utc (clock ev (n + 1)) - 300"
    have r: "clock_reads s' - 1 = n + 2" "clock_reads s' - 2 = n + 1"
      using reads True by simp_all
    have "clock ev (n + 1) \<le> clock ev (n + 2) \<longrightarrow> ?exp < ?iat"
      using timegm_utc_mono [of "clock ev (n + 1)" "clock ev (n + 2)"] by auto
    then show ?thesis
      apply -
      apply (rule exI [of _ ?iat])
      apply (rule exI [of _ ?exp])
      unfolding r using True by (simp add: pl claims_def n_def)
  next
    case False
    let ?iat = "timegm_utc (clock ev (n + 1))"
    let ?exp = "timegm_utc (clock ev n) + 300"
    have r: "clock_reads s' - 1 = n + 1" "clock_reads s' - 2 = n"
      using reads False by simp_all
    have "clock ev n \<le> clock ev (n + 1) \<longrightarrow> ?exp - ?iat \<le> 300"
      using timegm_utc_mono [of "clock ev n" "clock ev (n + 1)"] by auto
    moreover have "(?exp - ?iat = 300) = (timegm_utc (clock ev n) = ?iat)" by auto
    moreover have "?iat - timegm_utc (clock ev n) < 300 \<longrightarrow> ?iat < ?exp" by auto
    ultimately show ?thesis
      apply -
      apply (rule exI [of _ ?iat])
      apply (rule exI [of _ ?exp])
      unfolding r using False by (simp add: pl claims_def n_def)
  qed
qed

text \<open>
  The theorem at the request with \<^verbatim>\<open>?expired\<close>, where \<^verbatim>\<open>exp\<close> is -300 and
  \<^verbatim>\<open>iat\<close> is 0, and at the plain request under a clock that stands still, where
  \<^verbatim>\<open>exp - iat\<close> is 300.
\<close>

theorem token_expiry_relation_witness:
  "auth_endpoint (example_env (ticking_clock 1000 1)) [(''expired'', '''')]
        (example_server [(''old'', example_entry 999)])
      = Inr (\<lparr>resp_status = 201,
           resp_body = JsonToken
             \<lparr>jwt_header = [(''typ'', ''JWT''), (''alg'', ''RS256''), (''kid'', ''old'')],
              jwt_payload = [(''sub'', PyStr ''example_user''), (''iat'', PyInt 0),
                             (''exp'', PyInt (- 300))],
              jwt_signature = ''signature''\<rparr>\<rparr>,
          \<lparr>keys = [(''old'', example_entry 999)], clock_reads = 4, keys_made = 1\<rparr>)
   \<and> (\<exists>iat exp.
      map_of [(''sub'', PyStr ''example_user''), (''iat'', PyInt 0), (''exp'', PyInt (- 300))] ''iat''
        = Some (PyInt iat)
    \<and> map_of [(''sub'', PyStr ''example_user''), (''iat'', PyInt 0), (''exp'', PyInt (- 300))] ''exp''
        = Some (PyInt exp)
    \<and> exp < iat)
   \<and> auth_endpoint (example_env (frozen_clock 5000000)) [] (example_server [])
      = Inr (\<lparr>resp_status = 201,
           resp_body = JsonToken
             \<lparr>jwt_header = [(''typ'', ''JWT''), (''alg'', ''RS256''), (''kid'', ''u'')],
              jwt_payload = [(''sub'', PyStr ''example_user''), (''iat'', PyInt 5),
                             (''exp'', PyInt 305)],
              jwt_signature = ''signature''\<rparr>\<rparr>,
          \<lparr>keys = [(''u'', example_entry 3605000000)], clock_reads = 3, keys_made = 1\<rparr>)
   \<and> (\<exists>iat exp.
      map_of [(''sub'', PyStr ''example_user''), (''iat'', PyInt 5), (''exp'', PyInt 305)] ''iat''
        = Some (PyInt iat)
    \<and> map_of [(''sub'', PyStr ''example_user''), (''iat'', PyInt 5), (''exp'', PyInt 305)] ''exp''
        = Some (PyInt exp)
    \<and> exp - iat = 300 \<and> iat < exp)"
proof -
  let ?ev = "example_env (ticking_clock 1000 1)"
  let ?tok = "\<lparr>jwt_header = [(''typ'', ''JWT''), (''alg'', ''RS256''), (''kid'', ''old'')],
              jwt_payload = [(''sub'', PyStr ''example_user''), (''iat'', PyInt 0),
                             (''exp'', PyInt (- 300))],
              jwt_signature = ''signature''\<rparr>"
  let ?resp = "\<lparr>resp_status = 201, resp_body = JsonToken ?tok\<rparr>"
  let ?s' = "\<lparr>keys = [(''old'', example_entry 999)], clock_reads = 4, keys_made = 1\<rparr>"
  have run: "auth_endpoint ?ev [(''expired'', '''')] (example_server [(''old'', example_entry 999)])
      = Inr (?resp, ?s')"
    by (rule auth_endpoint_example_expired)
  have body: "resp_body ?resp = JsonToken ?tok" by simp
  from token_expiry_relation [OF run body]
  obtain iat exp where
    "map_of (jwt_payload ?tok) ''iat'' = Some (PyInt iat)"
    "map_of (jwt_payload ?tok) ''exp'' = Some (PyInt exp)"
    "exp < iat"
    by (auto simp: example_defs timegm_utc_def)
  then have a: "\<exists>iat exp.
      map_of [(''sub'', PyStr ''example_user''), (''iat'', PyInt 0), (''exp'', PyInt (- 300))] ''iat''
        = Some (PyInt iat)
    \<and> map_of [(''sub'', PyStr ''example_user''), (''iat'', PyInt 0), (''exp'', PyInt (- 300))] ''exp''
        = Some (PyInt exp)
    \<and> exp < iat"
    by (intro exI [of _ iat] exI [of _ exp]) simp
  let ?ev2 = "example_env (frozen_clock 5000000)"
  let ?tok2 = "\<lparr>jwt_header = [(''typ'', ''JWT''), (''alg'', ''RS256''), (''kid'', ''u'')],
              jwt_payload = [(''sub'', PyStr ''example_user''), (''iat'', PyInt 5),
                             (''exp'', PyInt 305)],
              jwt_signature = ''signature''\<rparr>"
  let ?resp2 = "\<lparr>resp_status = 201, resp_body = JsonToken ?tok2\<rparr>"
  let ?s2 = "\<lparr>keys = [(''u'', example_entry 3605000000)], clock_reads = 3, keys_made = 1\<rparr>"
  have run2: "auth_endpoint ?ev2 [] (example_server []) = Inr (?resp2, ?s2)"
    by (rule auth_endpoint_example_frozen)
  have body2: "resp_body ?resp2 = JsonToken ?tok2" by simp
  from token_expiry_relation [OF run2 body2]
  obtain iat exp where
    "map_of (jwt_payload ?tok2) ''iat'' = Some (PyInt iat)"
    "map_of (jwt_payload ?tok2) ''exp'' = Some (PyInt exp)"
    "exp - iat = 300" "iat < exp"
    by (auto simp: example_defs timegm_utc_def)
  then have b: "\<exists>iat exp.
      map_of [(''sub'', PyStr ''example_user''), (''iat'', PyInt 5), (''exp'', PyInt 305)] ''iat''
        = Some (PyInt iat)
    \<and> map_of [(''sub'', PyStr ''example_user''), (''iat'', PyInt 5), (''exp'', PyInt 305)] ''exp''
        = Some (PyInt exp)
    \<and> exp - iat = 300 \<and> iat < exp"
    by (intro exI [of _ iat] exI [of _ exp]) simp
  from run a run2 b show ?thesis by (intro conjI)
qed

text \<open>
  C4 as stated says that \<^verbatim>\<open>exp - iat\<close> is 300 for every token issued without the
  flag. Here the clock reads 999999 microseconds when \<^verbatim>\<open>exp_time\<close> is computed and
  1000000 when \<^verbatim>\<open>iat\<close> is: the token has \<^verbatim>\<open>exp = 300\<close> and \<^verbatim>\<open>iat = 1\<close>.
\<close>

theorem token_lifetime_counterexample:
  "auth_endpoint (example_env (ticking_clock 999998 1)) [] (example_server [])
   = Inr (\<lparr>resp_status = 201,
           resp_body = JsonToken
             \<lparr>jwt_header = [(''typ'', ''JWT''), (''alg'', ''RS256''), (''kid'', ''u'')],
              jwt_payload = [(''sub'', PyStr ''example_user''), (''iat'', PyInt 1),
                             (''exp'', PyInt 300)],
              jwt_signature = ''signature''\<rparr>\<rparr>,
          \<lparr>keys = [(''u'', example_entry 3600999998)], clock_reads = 3, keys_made = 1\<rparr>)
   \<and> (300::int) - 1 \<noteq> 300"
  by (simp add: auth_endpoint_example_fresh)

subsection \<open>Claim C3: which key signs\<close>



subsection \<open>Claim C2: inserting a key\<close>

text \<open>
  C2, as amended. \<^verbatim>\<open>generate_key\<close> makes no check of the id and has no DuplicateID
  error. Whether it returns depends only on the key generation and on the clock: it
  returns when the key generation succeeds and the expiry times it computes (one hour
  after the first clock reading, and with \<^verbatim>\<open>expired\<close> also five minutes before the
  second) are in the range of \<^verbatim>\<open>datetime\<close>; otherwise it raises the error of the key
  generation, or \<^verbatim>\<open>OverflowError\<close>, and stores nothing. When it returns, it returns
  the new id and has stored under it, by plain assignment, the entry made of the new key
  pair and of the expiry (one hour after the first reading, or with \<^verbatim>\<open>expired\<close> five
  minutes before the second): the entries under other ids are unchanged; an id that is
  not in the store is appended; an id that is already in the store keeps its place and
  its entry is replaced by the new one.
\<close>

theorem generate_key_inserts_or_overwrites:
  "\<exists>kid entry.
       kid = uuid4_str ev (keys_made s)
     \<and> entry = \<lparr>private_key = rsa_generate_private_key ev (keys_made s),
                 public_key = public_numbers_of (rsa_generate_private_key ev (keys_made s)),
                 expiry = (if expired
                           then clock ev (Suc (clock_reads s)) - timedelta_minutes 5
                           else clock ev (clock_reads s) + timedelta_hours 1)\<rparr>
     \<and> (rsa_generate_raises ev (keys_made s) = None
            \<and> in_datetime_range (clock ev (clock_reads s) + timedelta_hours 1)
            \<and> (expired \<longrightarrow>
                 in_datetime_range (clock ev (Suc (clock_reads s)) - timedelta_minutes 5))
         \<longrightarrow> (\<exists>s'. generate_key ev expired s = Inr (kid, s')
                \<and> keys s' = dict_set (keys s) kid entry
                \<and> map_of (keys s') = (map_of (keys s))(kid \<mapsto> entry)
                \<and> (kid \<notin> set (map fst (keys s)) \<longrightarrow> keys s' = keys s @ [(kid, entry)])
                \<and> (kid \<in> set (map fst (keys s)) \<longrightarrow>
                      map fst (keys s') = map fst (keys s)
                    \<and> (\<forall>i < length (keys s).
                          keys s' ! i = (if fst (keys s ! i) = kid
                                            \<and> kid \<notin> set (map fst (take i (keys s)))
                                         then (kid, entry) else keys s ! i)))
                \<and> keys_made s' = Suc (keys_made s)
                \<and> clock_reads s' = clock_reads s + (if expired then 2 else 1)))
     \<and> (\<not> (rsa_generate_raises ev (keys_made s) = None
            \<and> in_datetime_range (clock ev (clock_reads s) + timedelta_hours 1)
            \<and> (expired \<longrightarrow>
                 in_datetime_range (clock ev (Suc (clock_reads s)) - timedelta_minutes 5)))
         \<longrightarrow> generate_key ev expired s
                = Inl (case rsa_generate_raises ev (keys_made s) of
                         Some err \<Rightarrow> err
                       | None \<Rightarrow> OverflowError))"
proof -
  let ?kid = "uuid4_str ev (keys_made s)"
  let ?entry = "\<lparr>private_key = rsa_generate_private_key ev (keys_made s),
                 public_key = public_numbers_of (rsa_generate_private_key ev (keys_made s)),
                 expiry = (if expired
                           then clock ev (Suc (clock_reads s)) - timedelta_minutes 5
                           else clock ev (clock_reads s) + timedelta_hours 1)\<rparr>"
  let ?ok = "rsa_generate_raises ev (keys_made s) = None
            \<and> in_datetime_range (clock ev (clock_reads s) + timedelta_hours 1)
            \<and> (expired \<longrightarrow>
                 in_datetime_range (clock ev (Suc (clock_reads s)) - timedelta_minutes 5))"
  have fails: "generate_key ev expired s
                = Inl (case rsa_generate_raises ev (keys_made s) of
                         Some err \<Rightarrow> err
                       | None \<Rightarrow> OverflowError)" if "\<not> ?ok"
    using that
    by (auto simp: generate_key_def datetime_now_def datetime_add_def Let_def
        split: option.splits)
  have returns: "\<exists>s'. generate_key ev expired s = Inr (?kid, s')
                \<and> keys s' = dict_set (keys s) ?kid ?entry
                \<and> map_of (keys s') = (map_of (keys s))(?kid \<mapsto> ?entry)
                \<and> (?kid \<notin> set (map fst (keys s)) \<longrightarrow> keys s' = keys s @ [(?kid, ?entry)])
                \<and> (?kid \<in> set (map fst (keys s)) \<longrightarrow>
                      map fst (keys s') = map fst (keys s)
                    \<and> (\<forall>i < length (keys s).
                          keys s' ! i = (if fst (keys s ! i) = ?kid
                                            \<and> ?kid \<notin> set (map fst (take i (keys s)))
                                         then (?kid, ?entry) else keys s ! i)))
                \<and> keys_made s' = Suc (keys_made s)
                \<and> clock_reads s' = clock_reads s + (if expired then 2 else 1)" if ok: "?ok"
  proof -
    from ok have g: "generate_key ev expired s =
       Inr (?kid,
        s\<lparr>keys_made := Suc (keys_made s),
          clock_reads := (if expired then clock_reads s + 2 else clock_reads s + 1),
          keys := dict_set (keys s) ?kid ?entry\<rparr>)"
      by (intro generate_key_eq) simp_all
    show ?thesis
      unfolding g
      by (rule exI [of _ "s\<lparr>keys_made := Suc (keys_made s),
          clock_reads := (if expired then clock_reads s + 2 else clock_reads s + 1),
          keys := dict_set (keys s) ?kid ?entry\<rparr>"])
        (simp add: map_of_dict_set dict_set_new map_fst_dict_set_present dict_set_nth)
  qed
  show ?thesis
    apply (rule exI [of _ ?kid])
    apply (rule exI [of _ ?entry])
    apply (rule conjI [OF refl])
    apply (rule conjI [OF refl])
    apply (rule conjI)
     apply (rule impI)
     apply (erule returns)
    apply (rule impI)
    apply (erule fails)
    done
qed

text \<open>
  Three calls, evaluated: on a store that already holds the id the generator returns; on
  the empty store; and with a clock that stands in the last hour of year 9999.
\<close>

lemma generate_key_example_collision:
  "generate_key (example_env (frozen_clock 1000)) False
     \<lparr>keys = [(''u'', other_entry 5000)], clock_reads = 0, keys_made = 0\<rparr>
   = Inr (''u'', \<lparr>keys = [(''u'', example_entry 3600001000)], clock_reads = 1, keys_made = 1\<rparr>)"
  by (simp add: auth_eval)

lemma generate_key_example_new:
  "generate_key (example_env (frozen_clock 1000)) True (example_server [])
   = Inr (''u'', \<lparr>keys = [(''u'', example_entry (- 299999000))], clock_reads = 2,
                  keys_made = 1\<rparr>)"
  by (simp add: auth_eval)

lemma generate_key_example_overflow:
  "generate_key (example_env (frozen_clock 253402300799000000)) False (example_server [])
   = Inl OverflowError"
  by (simp add: auth_eval)

theorem generate_key_inserts_or_overwrites_witness:
  "''u'' \<in> set (map fst [(''u'', other_entry 5000)])
   \<and> generate_key (example_env (frozen_clock 1000)) False
        \<lparr>keys = [(''u'', other_entry 5000)], clock_reads = 0, keys_made = 0\<rparr>
      = Inr (''u'', \<lparr>keys = [(''u'', example_entry 3600001000)], clock_reads = 1,
                     keys_made = 1\<rparr>)
   \<and> map fst [(''u'', example_entry 3600001000)] = map fst [(''u'', other_entry 5000)]
   \<and> ''u'' \<notin> set (map fst ([] :: (string \<times> key_entry) list))
   \<and> generate_key (example_env (frozen_clock 1000)) True (example_server [])
      = Inr (''u'', \<lparr>keys = [(''u'', example_entry (- 299999000))], clock_reads = 2,
                     keys_made = 1\<rparr>)
   \<and> [(''u'', example_entry (- 299999000))] = [] @ [(''u'', example_entry (- 299999000))]
   \<and> \<not> in_datetime_range (253402300799000000 + timedelta_hours 1)
   \<and> generate_key (example_env (frozen_clock 253402300799000000)) False (example_server [])
      = Inl OverflowError"
proof -
  let ?ev = "example_env (frozen_clock 1000)"
  let ?s = "\<lparr>keys = [(''u'', other_entry 5000)], clock_reads = 0, keys_made = 0\<rparr>"
  have ok: "rsa_generate_raises ?ev (keys_made ?s) = None
            \<and> in_datetime_range (clock ?ev (clock_reads ?s) + timedelta_hours 1)
            \<and> (False \<longrightarrow>
                 in_datetime_range (clock ?ev (Suc (clock_reads ?s)) - timedelta_minutes 5))"
    by (simp add: auth_eval)
  from generate_key_inserts_or_overwrites [of ?ev ?s False] ok
  obtain kid entry s' where k: "kid = uuid4_str ?ev (keys_made ?s)"
    and g: "generate_key ?ev False ?s = Inr (kid, s')"
    and o: "kid \<in> set (map fst (keys ?s)) \<longrightarrow>
              map fst (keys s') = map fst (keys ?s)
            \<and> (\<forall>i < length (keys ?s).
                  keys s' ! i = (if fst (keys ?s ! i) = kid
                                    \<and> kid \<notin> set (map fst (take i (keys ?s)))
                                 then (kid, entry) else keys ?s ! i))"
    by blast
  from g have s': "kid = ''u''"
    "s' = \<lparr>keys = [(''u'', example_entry 3600001000)], clock_reads = 1, keys_made = 1\<rparr>"
    by (auto simp: generate_key_example_collision)
  from o have a: "map fst [(''u'', example_entry 3600001000)] = map fst [(''u'', other_entry 5000)]"
    unfolding s' by simp
  let ?s1 = "example_server []"
  have ok1: "rsa_generate_raises ?ev (keys_made ?s1) = None
            \<and> in_datetime_range (clock ?ev (clock_reads ?s1) + timedelta_hours 1)
            \<and> (True \<longrightarrow>
                 in_datetime_range (clock ?ev (Suc (clock_reads ?s1)) - timedelta_minutes 5))"
    by (simp add: auth_eval)
  from generate_key_inserts_or_overwrites [of ?ev ?s1 True] ok1
  obtain kid1 entry1 s1' where g1: "generate_key ?ev True ?s1 = Inr (kid1, s1')"
    and n1: "kid1 \<notin> set (map fst (keys ?s1)) \<longrightarrow> keys s1' = keys ?s1 @ [(kid1, entry1)]"
    by blast
  from g1 have s1': "kid1 = ''u''"
    "s1' = \<lparr>keys = [(''u'', example_entry (- 299999000))], clock_reads = 2, keys_made = 1\<rparr>"
    by (auto simp: generate_key_example_new)
  from n1 have "(''u'', example_entry (- 299999000)) = (kid1, entry1)"
    unfolding s1' by (simp add: example_server_def)
  then have b: "[(''u'', example_entry (- 299999000))] = [] @ [(''u'', example_entry (- 299999000))]"
    by simp
  let ?ev2 = "example_env (frozen_clock 253402300799000000)"
  have bad: "\<not> (rsa_generate_raises ?ev2 (keys_made ?s1) = None
            \<and> in_datetime_range (clock ?ev2 (clock_reads ?s1) + timedelta_hours 1)
            \<and> (False \<longrightarrow>
                 in_datetime_range (clock ?ev2 (Suc (clock_reads ?s1)) - timedelta_minutes 5)))"
    by (simp add: auth_eval)
  from generate_key_inserts_or_overwrites [of ?ev2 ?s1 False] bad
  have "generate_key ?ev2 False ?s1
      = Inl (case rsa_generate_raises ?ev2 (keys_made ?s1) of
               Some err \<Rightarrow> err | None \<Rightarrow> OverflowError)"
    by blast
  then have c: "generate_key ?ev2 False ?s1 = Inl OverflowError"
    by (simp add: example_env_def)
  have r: "\<not> in_datetime_range (253402300799000000 + timedelta_hours 1)"
    by (simp add: in_datetime_range_def datetime_max_def timedelta_hours_def)
  from a b c r show ?thesis
    by (simp add: generate_key_example_collision generate_key_example_new)
qed

text \<open>
  C2 as stated says that the insertion fails and that the stored key stays as it is.
  Here the store holds another key pair under \<^verbatim>\<open>u\<close>, the generator returns
  \<^verbatim>\<open>u\<close> again, and the call returns normally with the new key pair stored under
  \<^verbatim>\<open>u\<close>.
\<close>

theorem generate_key_duplicate_counterexample:
  "generate_key (example_env (frozen_clock 1000)) False
     \<lparr>keys = [(''u'', other_entry 5000)], clock_reads = 0, keys_made = 0\<rparr>
   = Inr (''u'', \<lparr>keys = [(''u'', example_entry 3600001000)], clock_reads = 1, keys_made = 1\<rparr>)
   \<and> dict_get [(''u'', other_entry 5000)] ''u'' = Inr (other_entry 5000)
   \<and> dict_get [(''u'', example_entry 3600001000)] ''u'' = Inr (example_entry 3600001000)
   \<and> private_key (example_entry 3600001000) \<noteq> private_key (other_entry 5000)"
  by (simp add: generate_key_example_collision dict_get_def)
     (simp add: example_defs other_entry_def other_private_key_def)

section \<open>Routing\<close>

subsection \<open>Claim C8: the methods of the two paths\<close>

lemma jwks_endpoint_status:
  "jwks_endpoint ev s = Inr (resp, s') \<Longrightarrow> resp_status resp = 200"
  by (auto simp: jwks_endpoint_def Let_def datetime_now_def
      split: sum.splits prod.splits if_splits)

text \<open>
  C8, as amended. The method \<open>m\<close> is the one \<^verbatim>\<open>request.method\<close> gives, in upper
  case. On the discovery path every method other than GET, HEAD and OPTIONS is answered
  with status 405 and leaves the state unchanged: PUT, POST, DELETE and PATCH by the
  handler, with the body \<^verbatim>\<open>{"error": "Method Not Allowed"}\<close>, and any other method by
  Flask, with its own 405 page. On the issuance path every method other than POST and
  OPTIONS is answered with status 405 and leaves the state unchanged: GET, PUT, DELETE,
  PATCH and HEAD by the handler, with the same body (which is not sent for HEAD), and any
  other method by Flask. The remaining methods are not answered with 405: GET and HEAD
  on the discovery path both run the discovery handler, whose responses have status 200;
  OPTIONS is answered by Flask with status 200 on both paths; POST on the issuance path
  runs the issuance handler, whose responses have status 201 or 500, and which returns a
  response whenever the key generation does not fail and the clock stays at least five
  minutes after \<^verbatim>\<open>datetime.min\<close> and one hour before \<^verbatim>\<open>datetime.max\<close>.
\<close>

theorem method_restriction:
  "(m \<notin> {''GET'', ''HEAD'', ''OPTIONS''} \<longrightarrow>
      full_dispatch_request ev
        \<lparr>req_method = m, req_path = ''/.well-known/jwks.json'', req_args = args\<rparr> s
      = Inr (\<lparr>resp_status = 405,
              resp_body = (if m \<in> {''PUT'', ''POST'', ''DELETE'', ''PATCH''}
                           then JsonError ''Method Not Allowed'' else DefaultBody)\<rparr>, s))
   \<and> (m \<notin> {''POST'', ''OPTIONS''} \<longrightarrow>
      full_dispatch_request ev \<lparr>req_method = m, req_path = ''/auth'', req_args = args\<rparr> s
      = Inr (\<lparr>resp_status = 405,
              resp_body = (if m \<in> {''GET'', ''PUT'', ''DELETE'', ''PATCH'', ''HEAD''}
                           then JsonError ''Method Not Allowed'' else DefaultBody)\<rparr>, s))
   \<and> full_dispatch_request ev
        \<lparr>req_method = ''GET'', req_path = ''/.well-known/jwks.json'', req_args = args\<rparr> s
      = jwks_endpoint ev s
   \<and> full_dispatch_request ev
        \<lparr>req_method = ''HEAD'', req_path = ''/.well-known/jwks.json'', req_args = args\<rparr> s
      = jwks_endpoint ev s
   \<and> (\<forall>resp s'. jwks_endpoint ev s = Inr (resp, s') \<longrightarrow> resp_status resp = 200)
   \<and> (distinct (map fst (keys s)) \<longrightarrow>
        (\<exists>resp s'. jwks_endpoint ev s = Inr (resp, s') \<and> resp_status resp = 200))
   \<and> full_dispatch_request ev
        \<lparr>req_method = ''OPTIONS'', req_path = ''/.well-known/jwks.json'', req_args = args\<rparr> s
      = Inr (\<lparr>resp_status = 200, resp_body = DefaultBody\<rparr>, s)
   \<and> full_dispatch_request ev
        \<lparr>req_method = ''OPTIONS'', req_path = ''/auth'', req_args = args\<rparr> s
      = Inr (\<lparr>resp_status = 200, resp_body = DefaultBody\<rparr>, s)
   \<and> full_dispatch_request ev \<lparr>req_method = ''POST'', req_path = ''/auth'', req_args = args\<rparr> s
      = auth_endpoint ev args s
   \<and> (\<forall>resp s'. auth_endpoint ev args s = Inr (resp, s') \<longrightarrow>
         resp_status resp = 201 \<or> resp_status resp = 500)
   \<and> ((\<forall>j. rsa_generate_raises ev j = None)
        \<and> (\<forall>i. datetime_min + timedelta_minutes 5 \<le> clock ev i
                 \<and> clock ev i + timedelta_hours 1 \<le> datetime_max) \<longrightarrow>
        (\<exists>resp s'. auth_endpoint ev args s = Inr (resp, s')
           \<and> (resp_status resp = 201 \<or> resp_status resp = 500)))"
proof -
  have p1: "full_dispatch_request ev
        \<lparr>req_method = m, req_path = ''/.well-known/jwks.json'', req_args = args\<rparr> s
      = Inr (\<lparr>resp_status = 405,
              resp_body = (if m \<in> {''PUT'', ''POST'', ''DELETE'', ''PATCH''}
                           then JsonError ''Method Not Allowed'' else DefaultBody)\<rparr>, s)"
    if "m \<notin> {''GET'', ''HEAD'', ''OPTIONS''}"
    using that
    by (auto simp: full_dispatch_request_def url_map_def route_def jwks_invalid_methods_def)
  have p2: "full_dispatch_request ev \<lparr>req_method = m, req_path = ''/auth'', req_args = args\<rparr> s
      = Inr (\<lparr>resp_status = 405,
              resp_body = (if m \<in> {''GET'', ''PUT'', ''DELETE'', ''PATCH'', ''HEAD''}
                           then JsonError ''Method Not Allowed'' else DefaultBody)\<rparr>, s)"
    if "m \<notin> {''POST'', ''OPTIONS''}"
    using that
    by (auto simp: full_dispatch_request_def url_map_def route_def auth_invalid_methods_def)
  have p3: "full_dispatch_request ev
        \<lparr>req_method = ''GET'', req_path = ''/.well-known/jwks.json'', req_args = args\<rparr> s
      = jwks_endpoint ev s"
    by (simp add: full_dispatch_request_def url_map_def route_def)
  have p4: "full_dispatch_request ev
        \<lparr>req_method = ''HEAD'', req_path = ''/.well-known/jwks.json'', req_args = args\<rparr> s
      = jwks_endpoint ev s"
    by (simp add: full_dispatch_request_def url_map_def route_def)
  have p5: "\<forall>resp s'. jwks_endpoint ev s = Inr (resp, s') \<longrightarrow> resp_status resp = 200"
    using jwks_endpoint_status by blast
  have p6: "\<exists>resp s'. jwks_endpoint ev s = Inr (resp, s') \<and> resp_status resp = 200"
    if "distinct (map fst (keys s))"
    using jwks_endpoint_run [OF that, of ev] by auto
  have p7: "full_dispatch_request ev
        \<lparr>req_method = ''OPTIONS'', req_path = ''/.well-known/jwks.json'', req_args = args\<rparr> s
      = Inr (\<lparr>resp_status = 200, resp_body = DefaultBody\<rparr>, s)"
    by (simp add: full_dispatch_request_def url_map_def route_def)
  have p8: "full_dispatch_request ev
        \<lparr>req_method = ''OPTIONS'', req_path = ''/auth'', req_args = args\<rparr> s
      = Inr (\<lparr>resp_status = 200, resp_body = DefaultBody\<rparr>, s)"
    by (simp add: full_dispatch_request_def url_map_def route_def)
  have p9: "full_dispatch_request ev
        \<lparr>req_method = ''POST'', req_path = ''/auth'', req_args = args\<rparr> s
      = auth_endpoint ev args s"
    by (simp add: full_dispatch_request_def url_map_def route_def)
  have p10: "\<forall>resp s'. auth_endpoint ev args s = Inr (resp, s') \<longrightarrow>
         resp_status resp = 201 \<or> resp_status resp = 500"
    using auth_endpoint_status by blast
  have p11: "\<exists>resp s'. auth_endpoint ev args s = Inr (resp, s')
           \<and> (resp_status resp = 201 \<or> resp_status resp = 500)"
    if "(\<forall>j. rsa_generate_raises ev j = None)
        \<and> (\<forall>i. datetime_min + timedelta_minutes 5 \<le> clock ev i
                 \<and> clock ev i + timedelta_hours 1 \<le> datetime_max)"
    using that auth_endpoint_returns [of ev args s] by blast
  show ?thesis
    apply (intro conjI)
              apply (rule impI, erule p1)
             apply (rule impI, erule p2)
            apply (rule p3)
           apply (rule p4)
          apply (rule p5)
         apply (rule impI, erule p6)
        apply (rule p7)
       apply (rule p8)
      apply (rule p9)
     apply (rule p10)
    apply (rule impI, erule p11)
    done
qed

text \<open>
  The theorem at PUT and at TRACE on both paths, at GET on the discovery path and at POST
  on the issuance path.
\<close>

theorem method_restriction_witness:
  "full_dispatch_request (example_env (frozen_clock 1000))
        \<lparr>req_method = ''PUT'', req_path = ''/.well-known/jwks.json'', req_args = []\<rparr>
        (example_server [])
      = Inr (\<lparr>resp_status = 405, resp_body = JsonError ''Method Not Allowed''\<rparr>,
             example_server [])
   \<and> full_dispatch_request (example_env (frozen_clock 1000))
        \<lparr>req_method = ''PUT'', req_path = ''/auth'', req_args = []\<rparr> (example_server [])
      = Inr (\<lparr>resp_status = 405, resp_body = JsonError ''Method Not Allowed''\<rparr>,
             example_server [])
   \<and> full_dispatch_request (example_env (frozen_clock 1000))
        \<lparr>req_method = ''TRACE'', req_path = ''/.well-known/jwks.json'', req_args = []\<rparr>
        (example_server [])
      = Inr (\<lparr>resp_status = 405, resp_body = DefaultBody\<rparr>, example_server [])
   \<and> full_dispatch_request (example_env (frozen_clock 1000))
        \<lparr>req_method = ''TRACE'', req_path = ''/auth'', req_args = []\<rparr> (example_server [])
      = Inr (\<lparr>resp_status = 405, resp_body = DefaultBody\<rparr>, example_server [])
   \<and> (\<exists>resp s'. full_dispatch_request (example_env (frozen_clock 1000))
            \<lparr>req_method = ''GET'', req_path = ''/.well-known/jwks.json'', req_args = []\<rparr>
            (example_server [])
           = Inr (resp, s')
         \<and> resp_status resp = 200)
   \<and> (\<exists>resp s'. full_dispatch_request (example_env (frozen_clock 1000))
            \<lparr>req_method = ''POST'', req_path = ''/auth'', req_args = []\<rparr> (example_server [])
           = Inr (resp, s')
         \<and> (resp_status resp = 201 \<or> resp_status resp = 500))"
proof -
  let ?ev = "example_env (frozen_clock 1000)"
  let ?s = "example_server []"
  note put = method_restriction [of "''PUT''" ?ev "[]" ?s]
  note trace = method_restriction [of "''TRACE''" ?ev "[]" ?s]
  have d: "distinct (map fst (keys ?s))" by (simp add: example_server_def)
  have ok: "(\<forall>j. rsa_generate_raises ?ev j = None)
        \<and> (\<forall>i. datetime_min + timedelta_minutes 5 \<le> clock ?ev i
                 \<and> clock ?ev i + timedelta_hours 1 \<le> datetime_max)"
    by (simp add: example_defs datetime_min_def datetime_max_def timedelta_minutes_def
        timedelta_hours_def)
  have a: "full_dispatch_request ?ev
        \<lparr>req_method = ''PUT'', req_path = ''/.well-known/jwks.json'', req_args = []\<rparr> ?s
      = Inr (\<lparr>resp_status = 405, resp_body = JsonError ''Method Not Allowed''\<rparr>, ?s)"
    "full_dispatch_request ?ev
        \<lparr>req_method = ''PUT'', req_path = ''/auth'', req_args = []\<rparr> ?s
      = Inr (\<lparr>resp_status = 405, resp_body = JsonError ''Method Not Allowed''\<rparr>, ?s)"
    using put by simp_all
  have b: "full_dispatch_request ?ev
        \<lparr>req_method = ''TRACE'', req_path = ''/.well-known/jwks.json'', req_args = []\<rparr> ?s
      = Inr (\<lparr>resp_status = 405, resp_body = DefaultBody\<rparr>, ?s)"
    "full_dispatch_request ?ev
        \<lparr>req_method = ''TRACE'', req_path = ''/auth'', req_args = []\<rparr> ?s
      = Inr (\<lparr>resp_status = 405, resp_body = DefaultBody\<rparr>, ?s)"
    using trace by simp_all
  from put d have c: "\<exists>resp s'. full_dispatch_request ?ev
            \<lparr>req_method = ''GET'', req_path = ''/.well-known/jwks.json'', req_args = []\<rparr> ?s
           = Inr (resp, s')
         \<and> resp_status resp = 200"
    by metis
  from put ok have e: "\<exists>resp s'. full_dispatch_request ?ev
            \<lparr>req_method = ''POST'', req_path = ''/auth'', req_args = []\<rparr> ?s
           = Inr (resp, s')
         \<and> (resp_status resp = 201 \<or> resp_status resp = 500)"
    by metis
  from a b c e show ?thesis by (intro conjI)
qed

text \<open>
  C8 as stated says that every method other than GET, or POST, is answered with 405.
  No rule of the application lists OPTIONS, so Flask answers it itself, with status 200,
  on both paths.
\<close>

theorem options_request_counterexample:
  "full_dispatch_request (example_env (frozen_clock 1000))
     \<lparr>req_method = ''OPTIONS'', req_path = ''/.well-known/jwks.json'', req_args = []\<rparr>
     (example_server [])
   = Inr (\<lparr>resp_status = 200, resp_body = DefaultBody\<rparr>, example_server [])
   \<and> full_dispatch_request (example_env (frozen_clock 1000))
     \<lparr>req_method = ''OPTIONS'', req_path = ''/auth'', req_args = []\<rparr> (example_server [])
   = Inr (\<lparr>resp_status = 200, resp_body = DefaultBody\<rparr>, example_server [])"
  by (simp add: full_dispatch_request_def url_map_def route_def)

end
